theory Spec2Isabelle
  imports Complex_Main
begin

section \<open>The session token lifecycle of the Varzesha front end\<close>

text \<open>
  The development embeds \<^verbatim>\<open>src/api/client.ts\<close> (the token refresh logic and the two
  axios interceptors) and the \<^verbatim>\<open>logout\<close> and login actions of the zustand auth store.
  JavaScript runs the interceptors on one event loop: an \<^verbatim>\<open>async\<close> function runs
  without interruption up to its next \<^verbatim>\<open>await\<close>, and other continuations may run
  before it is resumed. Each such uninterrupted block is one function of the model, and
  the event loop is a step function that runs one block per event.
\<close>

subsection \<open>Browser storage and the auth store\<close>

type_synonym storage = "string \<rightharpoonup> string"

text \<open>
  \<^verbatim>\<open>AuthState\<close>; the type \<^verbatim>\<open>User\<close> is declared in \<^verbatim>\<open>@/types\<close> and is the
  parameter \<open>'u\<close>. \<^verbatim>\<open>AuthTokens\<close> is the pair of the access and the refresh token.
\<close>

record 'u auth_state =
  user :: "'u option"
  tokens :: "(string \<times> string) option"
  isAuthenticated :: bool
  isLoading :: bool

subsection \<open>Requests\<close>

type_synonym rid = nat

text \<open>
  \<^verbatim>\<open>InternalAxiosRequestConfig & { _retry?: boolean }\<close>. \<open>headers\<close> maps a header
  name to its value; \<^verbatim>\<open>_retry\<close> is \<open>retry_flag\<close>, and an absent \<^verbatim>\<open>_retry\<close> is
  \<open>False\<close> (the code only ever tests \<^verbatim>\<open>!originalRequest._retry\<close>).
\<close>

record config =
  url :: string
  http_method :: string
  body :: "string option"
  headers :: "string \<rightharpoonup> string"
  retry_flag :: bool

text \<open>The response the transport hands to the response interceptor: fulfilled, or an
  \<^verbatim>\<open>AxiosError\<close> whose \<^verbatim>\<open>error.response?.status\<close> is the given status (\<open>None\<close> when
  there is no response at all).\<close>

datatype response = Success | Failure "nat option"

text \<open>What the caller of \<^verbatim>\<open>apiClient\<close> finally gets.\<close>

datatype outcome = Resolved | Rejected "nat option"

text \<open>How the POST to \<^verbatim>\<open>/users/auth/refresh/\<close> settles. A fulfilled POST carries
  \<^verbatim>\<open>response.data.access\<close>, a string by the endpoint's contract.\<close>

datatype post_result = PostOk string | PostHttpError nat | PostNetworkError

text \<open>Where a request stands. A request suspended at \<^verbatim>\<open>await refreshToken()\<close> remembers
  whether that call posted to the renewal endpoint (\<open>Some\<close> of the refresh token sent) or
  returned \<^verbatim>\<open>null\<close> at once (\<open>None\<close>).\<close>

datatype phase =
    Queued
  | OutRefreshing "string option"
  | OutWaiting
  | Sent
  | InRefreshing "string option" "nat option"
  | Done outcome

record request =
  cfg :: config
  phase :: phase

subsection \<open>The state the code reads and writes\<close>

text \<open>
  \<open>localStorage\<close> holds the string keys the code reads (\<^verbatim>\<open>access_token\<close>,
  \<^verbatim>\<open>refresh_token\<close>); the entry \<^verbatim>\<open>auth-storage\<close> that zustand's \<^verbatim>\<open>persist\<close> writes is
  kept apart as \<open>auth_storage\<close>, the snapshot \<^verbatim>\<open>partialize\<close> selects.
  \<open>isRefreshing\<close> and \<open>refreshSubscribers\<close> are the module variables of client.ts; a
  subscriber callback closes over the \<^verbatim>\<open>config\<close> of one request and is named by that
  request. The remaining fields record effects: \<open>posts\<close> the refresh tokens posted to
  the renewal endpoint, \<open>transmitted\<close> the requests in the order in which axios
  dispatches them, each with the configuration it is dispatched with, \<open>notified\<close> the
  calls of subscriber callbacks (the subscriber and the token it is called with),
  \<open>replays\<close> the requests re-issued by the response
  interceptor, \<open>navigations\<close> the assignments to \<^verbatim>\<open>window.location.href\<close>, and
  \<open>console_errors\<close> the calls of \<^verbatim>\<open>console.error\<close>.
\<close>

record 'u client_state =
  localStorage :: storage
  auth_storage :: "('u option \<times> bool) option"
  auth :: "'u auth_state"
  isRefreshing :: bool
  refreshSubscribers :: "rid list"
  requests :: "rid \<rightharpoonup> request"
  posts :: "string list"
  transmitted :: "(rid \<times> config) list"
  notified :: "(rid \<times> string) list"
  replays :: "rid list"
  navigations :: "string list"
  console_errors :: nat

subsection \<open>JavaScript values\<close>

text \<open>\<^verbatim>\<open>if (x)\<close> on a \<^verbatim>\<open>string | null\<close>: \<^verbatim>\<open>null\<close> and the empty string are falsy.\<close>

definition truthy :: "string option \<Rightarrow> bool" where
  "truthy x = (case x of None \<Rightarrow> False | Some v \<Rightarrow> v \<noteq> [])"

text \<open>
  A JavaScript Number as a comparison reads it: \<^verbatim>\<open>NaN\<close>, a finite double (its value, a
  real), or one of the two infinities.
\<close>

datatype js_number = NaN | Finite real | PosInfinity | NegInfinity

text \<open>
  \<^verbatim>\<open>jwtDecode\<close> is a library function and a parameter of the model. \<open>DecodeError\<close>: it
  throws, or reading \<^verbatim>\<open>decoded.exp\<close> throws (a payload that is \<^verbatim>\<open>null\<close>); both end in
  the \<^verbatim>\<open>catch\<close> of line 82. \<open>Decoded n\<close>: it returns a payload, and \<open>n\<close> is the
  Number that the comparison of line 56 converts \<^verbatim>\<open>decoded.exp\<close> to. The right operand of
  that comparison is a Number, so JavaScript compares \<^verbatim>\<open>ToNumber\<close> of the primitive value of
  \<^verbatim>\<open>exp\<close>: the number itself; \<open>0\<close> for \<^verbatim>\<open>null\<close>; \<open>1\<close> and \<open>0\<close> for \<^verbatim>\<open>true\<close> and
  \<^verbatim>\<open>false\<close>; the value a numeric string parses to; \<^verbatim>\<open>NaN\<close> when \<^verbatim>\<open>exp\<close> is missing or
  converts to no number.
\<close>

datatype decode_result = DecodeError | Decoded js_number

type_synonym decoder = "string \<Rightarrow> decode_result"

text \<open>\<^verbatim>\<open>n < t\<close> for a finite Number \<open>t\<close>: a comparison with \<^verbatim>\<open>NaN\<close> is never true.\<close>

definition js_less :: "js_number \<Rightarrow> real \<Rightarrow> bool" where
  "js_less n t =
     (case n of NaN \<Rightarrow> False | Finite v \<Rightarrow> v < t | PosInfinity \<Rightarrow> False | NegInfinity \<Rightarrow> True)"

text \<open>
  \<^verbatim>\<open>Date.now() / 1000\<close> is a division of doubles: the exact quotient rounded to the
  nearest double, ties to even. \<open>binary64\<close> is that rounding for a real that is \<open>0\<close>
  or lies in the range of the normal doubles: with 53 significant bits, a number in
  \<^verbatim>\<open>[2^e, 2^(e+1))\<close> is rounded to a multiple of \<^verbatim>\<open>2^(e-52)\<close>. \<^verbatim>\<open>Date.now()\<close> is an
  integer number of milliseconds of magnitude at most \<^verbatim>\<open>8.64e15\<close>, itself a double, so
  the quotient is \<open>0\<close> or normal.
\<close>

definition round_ties_even :: "real \<Rightarrow> int" where
  "round_ties_even r =
     (let n = \<lfloor>r\<rfloor>; f = r - of_int n
      in if f < 1 / 2 then n else if 1 / 2 < f then n + 1 else if even n then n else n + 1)"

definition binary64 :: "real \<Rightarrow> real" where
  "binary64 x =
     (if x = 0 then 0
      else (let e = \<lfloor>log 2 \<bar>x\<bar>\<rfloor>; q = 2 powi (e - 52)
            in sgn x * (of_int (round_ties_even (\<bar>x\<bar> / q)) * q)))"

text \<open>\<^verbatim>\<open>const currentTime = Date.now() / 1000\<close> (line 53), for \<^verbatim>\<open>Date.now() = now\<close>.\<close>

definition currentTime :: "int \<Rightarrow> real" where
  "currentTime now = binary64 (real_of_int now / 1000)"

definition bearer :: "string \<Rightarrow> string" where
  "bearer token = ''Bearer '' @ token"

text \<open>The result of a block that may throw.\<close>

datatype 'a completion = Returns 'a | Throws

subsection \<open>store/authStore.ts\<close>

text \<open>The auth store that client.ts imports as \<^verbatim>\<open>@/store/authStore\<close>; its source is
  \<^verbatim>\<open>src/unnamed/part_003\<close>, and the line numbers below are that file's.\<close>

definition removeItem :: "string \<Rightarrow> 'u client_state \<Rightarrow> 'u client_state" where
  "removeItem k s = s\<lparr>localStorage := (localStorage s)(k := None)\<rparr>"

definition setItem :: "string \<Rightarrow> string \<Rightarrow> 'u client_state \<Rightarrow> 'u client_state" where
  "setItem k v s = s\<lparr>localStorage := (localStorage s)(k \<mapsto> v)\<rparr>"

text \<open>\<^verbatim>\<open>partialize\<close> and zustand's \<^verbatim>\<open>set\<close> under \<^verbatim>\<open>persist\<close>: the store is updated and
  its selected part is written to the persisted entry.\<close>

definition partialize :: "'u auth_state \<Rightarrow> 'u option \<times> bool" where
  "partialize a = (user a, isAuthenticated a)"

definition set_store :: "('u auth_state \<Rightarrow> 'u auth_state) \<Rightarrow> 'u client_state \<Rightarrow> 'u client_state" where
  "set_store f s = s\<lparr>auth := f (auth s), auth_storage := Some (partialize (f (auth s)))\<rparr>"

text \<open>\<^verbatim>\<open>logout\<close>, lines 75-79.\<close>

definition logout :: "'u client_state \<Rightarrow> 'u client_state" where
  "logout s =
     set_store (\<lambda>a. a\<lparr>user := None, tokens := None, isAuthenticated := False\<rparr>)
       (removeItem ''refresh_token'' (removeItem ''access_token'' s))"

text \<open>The continuation of \<^verbatim>\<open>login\<close>, \<^verbatim>\<open>register\<close> and \<^verbatim>\<open>verifyPhone\<close> once the
  server has answered with the user \<open>u\<close> and the two tokens (lines 31-39).\<close>

definition login_success :: "'u \<Rightarrow> string \<Rightarrow> string \<Rightarrow> 'u client_state \<Rightarrow> 'u client_state" where
  "login_success u access refresh s =
     set_store (\<lambda>a. a\<lparr>isLoading := False\<rparr>)
       (set_store (\<lambda>a. a\<lparr>user := Some u, tokens := Some (access, refresh), isAuthenticated := True\<rparr>)
          (setItem ''refresh_token'' refresh (setItem ''access_token'' access s)))"

subsection \<open>api/client.ts: the token refresh logic\<close>

text \<open>The phase and the configuration of a request, when it exists.\<close>

definition phase_of :: "'u client_state \<Rightarrow> rid \<Rightarrow> phase option" where
  "phase_of s i = map_option phase (requests s i)"

definition config_of :: "'u client_state \<Rightarrow> rid \<Rightarrow> config option" where
  "config_of s i = map_option cfg (requests s i)"

text \<open>\<^verbatim>\<open>window.location.href = target\<close>.\<close>

definition navigate :: "string \<Rightarrow> 'u client_state \<Rightarrow> 'u client_state" where
  "navigate target s = s\<lparr>navigations := navigations s @ [target]\<rparr>"

definition set_phase :: "rid \<Rightarrow> phase \<Rightarrow> 'u client_state \<Rightarrow> 'u client_state" where
  "set_phase i p s =
     (case requests s i of
        None \<Rightarrow> s
      | Some r \<Rightarrow> s\<lparr>requests := (requests s)(i \<mapsto> r\<lparr>phase := p\<rparr>)\<rparr>)"

text \<open>\<^verbatim>\<open>config.headers.Authorization = `Bearer ${token}`\<close>, on a configuration and on
  the configuration of request \<open>i\<close>.\<close>

definition with_authorization :: "string \<Rightarrow> config \<Rightarrow> config" where
  "with_authorization token c = c\<lparr>headers := (headers c)(''Authorization'' \<mapsto> bearer token)\<rparr>"

definition set_authorization :: "rid \<Rightarrow> string \<Rightarrow> 'u client_state \<Rightarrow> 'u client_state" where
  "set_authorization i token s =
     (case requests s i of
        None \<Rightarrow> s
      | Some r \<Rightarrow> s\<lparr>requests := (requests s)(i \<mapsto> r\<lparr>cfg := with_authorization token (cfg r)\<rparr>)\<rparr>)"

text \<open>\<^verbatim>\<open>originalRequest._retry = true\<close>.\<close>

definition set_retry :: "rid \<Rightarrow> 'u client_state \<Rightarrow> 'u client_state" where
  "set_retry i s =
     (case requests s i of
        None \<Rightarrow> s
      | Some r \<Rightarrow> s\<lparr>requests := (requests s)(i \<mapsto> r\<lparr>cfg := (cfg r)\<lparr>retry_flag := True\<rparr>\<rparr>)\<rparr>)"

text \<open>The request interceptor's promise is fulfilled with the configuration
  (\<^verbatim>\<open>return config\<close>, or the promise of lines 72-77 once a subscriber callback has
  resolved it): axios dispatches the request.\<close>

definition return_config :: "rid \<Rightarrow> 'u client_state \<Rightarrow> 'u client_state" where
  "return_config i s =
     (case requests s i of
        None \<Rightarrow> s
      | Some r \<Rightarrow>
          s\<lparr>requests := (requests s)(i \<mapsto> r\<lparr>phase := Sent\<rparr>),
            transmitted := transmitted s @ [(i, cfg r)]\<rparr>)"

text \<open>
  The callback that a waiting request passes to \<^verbatim>\<open>subscribeTokenRefresh\<close> (lines
  73-76) sets the header and calls \<^verbatim>\<open>resolve(config)\<close>. That settles the promise the
  waiting interceptor returned from inside; the interceptor's own promise follows it a
  microtask later, so the waiting request is dispatched after the block that called the
  callback has finished (see \<open>request_interceptor_resume\<close>). \<^verbatim>\<open>onTokenRefreshed\<close>
  (lines 23-26): \<^verbatim>\<open>forEach\<close> calls the subscribers from the first to the last, then the
  list is emptied.
\<close>

definition subscriber_callback :: "string \<Rightarrow> rid \<Rightarrow> 'u client_state \<Rightarrow> 'u client_state" where
  "subscriber_callback newToken i s =
     (set_authorization i newToken s)\<lparr>notified := notified s @ [(i, newToken)]\<rparr>"

definition subscribeTokenRefresh :: "rid \<Rightarrow> 'u client_state \<Rightarrow> 'u client_state" where
  "subscribeTokenRefresh i s = s\<lparr>refreshSubscribers := refreshSubscribers s @ [i]\<rparr>"

definition onTokenRefreshed :: "string \<Rightarrow> 'u client_state \<Rightarrow> 'u client_state" where
  "onTokenRefreshed token s =
     (fold (subscriber_callback token) (refreshSubscribers s) s)\<lparr>refreshSubscribers := []\<rparr>"

text \<open>
  \<^verbatim>\<open>refreshToken\<close> (lines 28-43) in two blocks. \<open>refreshToken_call\<close> runs up to the
  \<^verbatim>\<open>await\<close> of line 33: it reads the refresh token, returns \<^verbatim>\<open>null\<close> at once when it
  is falsy, and posts it otherwise. \<open>refreshToken_try\<close> is the rest of the \<^verbatim>\<open>try\<close>
  block, where a rejected POST throws; \<open>refreshToken_resume\<close> adds the \<^verbatim>\<open>catch\<close>.
\<close>

definition refreshToken_call :: "'u client_state \<Rightarrow> string option \<times> 'u client_state" where
  "refreshToken_call s =
     (if truthy (localStorage s ''refresh_token'')
      then (localStorage s ''refresh_token'',
            s\<lparr>posts := posts s @ [the (localStorage s ''refresh_token'')]\<rparr>)
      else (None, s))"

definition refreshToken_try ::
  "post_result \<Rightarrow> 'u client_state \<Rightarrow> string option completion \<times> 'u client_state" where
  "refreshToken_try res s =
     (case res of
        PostOk access \<Rightarrow> (Returns (Some access), setItem ''access_token'' access s)
      | PostHttpError status \<Rightarrow> (Throws, s)
      | PostNetworkError \<Rightarrow> (Throws, s))"

definition refreshToken_resume ::
  "string option \<Rightarrow> post_result \<Rightarrow> 'u client_state \<Rightarrow> string option completion \<times> 'u client_state" where
  "refreshToken_resume pending res s =
     (case pending of
        None \<Rightarrow> (Returns None, s)
      | Some r \<Rightarrow>
          (case refreshToken_try res s of
             (Returns v, s') \<Rightarrow> (Returns v, s')
           | (Throws, s') \<Rightarrow> (Returns None, s')))"

text \<open>The whole of \<^verbatim>\<open>refreshToken\<close> when nothing else runs in between; \<open>net\<close> is the
  renewal endpoint, answering the refresh token it is sent.\<close>

definition refreshToken ::
  "(string \<Rightarrow> post_result) \<Rightarrow> 'u client_state \<Rightarrow> string option completion \<times> 'u client_state" where
  "refreshToken net s =
     (case refreshToken_call s of
        (None, s1) \<Rightarrow> refreshToken_resume None PostNetworkError s1
      | (Some r, s1) \<Rightarrow> refreshToken_resume (Some r) (net r) s1)"

text \<open>Session teardown as both interceptors write it: \<^verbatim>\<open>logout()\<close>, then the redirect.\<close>

definition teardown :: "'u client_state \<Rightarrow> 'u client_state" where
  "teardown s = navigate ''/login'' (logout s)"

subsection \<open>api/client.ts: the request interceptor\<close>

text \<open>Lines 47-88 up to the first suspension. \<open>now\<close> is \<^verbatim>\<open>Date.now()\<close>, in
  milliseconds.\<close>

definition request_interceptor :: "decoder \<Rightarrow> rid \<Rightarrow> int \<Rightarrow> 'u client_state \<Rightarrow> 'u client_state" where
  "request_interceptor dec i now s =
     (let token = localStorage s ''access_token'' in
      if truthy token then
        (case dec (the token) of
           DecodeError \<Rightarrow> return_config i (s\<lparr>console_errors := Suc (console_errors s)\<rparr>)
         | Decoded expiry \<Rightarrow>
             if js_less expiry (currentTime now) then
               (if \<not> isRefreshing s then
                  (case refreshToken_call (s\<lparr>isRefreshing := True\<rparr>) of
                     (pending, s1) \<Rightarrow> set_phase i (OutRefreshing pending) s1)
                else set_phase i OutWaiting (subscribeTokenRefresh i s))
             else return_config i (set_authorization i (the token) s))
      else return_config i s)"

text \<open>
  Lines 59-69 and 87 once the awaited \<^verbatim>\<open>refreshToken()\<close> has settled. An exception
  here would be caught at line 82. On success the subscribers are called first (line
  63), then the renewing request gets its header and the interceptor returns. That
  return fulfils the renewing interceptor's promise at once, while each subscriber's
  interceptor promise is fulfilled only in the next microtask: axios dispatches the
  renewing request first and the subscribers after it, in the order in which they were
  called. No other block of this model runs in between.
\<close>

definition request_interceptor_resume ::
  "rid \<Rightarrow> string option \<Rightarrow> post_result \<Rightarrow> 'u client_state \<Rightarrow> 'u client_state" where
  "request_interceptor_resume i pending res s =
     (case refreshToken_resume pending res s of
        (Throws, s1) \<Rightarrow> return_config i (s1\<lparr>console_errors := Suc (console_errors s1)\<rparr>)
      | (Returns newToken, s1) \<Rightarrow>
          (let s2 = s1\<lparr>isRefreshing := False\<rparr> in
           if truthy newToken then
             fold return_config (refreshSubscribers s2)
               (return_config i (set_authorization i (the newToken) (onTokenRefreshed (the newToken) s2)))
           else return_config i (teardown s2)))"

subsection \<open>api/client.ts: the response interceptor\<close>

text \<open>Lines 94-111 up to the first suspension.\<close>

definition response_interceptor :: "rid \<Rightarrow> response \<Rightarrow> 'u client_state \<Rightarrow> 'u client_state" where
  "response_interceptor i resp s =
     (case resp of
        Success \<Rightarrow> set_phase i (Done Resolved) s
      | Failure status \<Rightarrow>
          (case config_of s i of
             None \<Rightarrow> s
           | Some originalRequest \<Rightarrow>
               if status = Some 401 \<and> \<not> retry_flag originalRequest then
                 (case refreshToken_call (set_retry i s) of
                    (pending, s1) \<Rightarrow> set_phase i (InRefreshing pending status) s1)
               else set_phase i (Done (Rejected status)) s))"

text \<open>Lines 101-111 once the awaited \<^verbatim>\<open>refreshToken()\<close> has settled.
  \<^verbatim>\<open>apiClient(originalRequest)\<close> sends the same configuration through the request
  interceptor again, and its result is the caller's.\<close>

definition response_interceptor_resume ::
  "rid \<Rightarrow> string option \<Rightarrow> nat option \<Rightarrow> post_result \<Rightarrow> 'u client_state \<Rightarrow> 'u client_state" where
  "response_interceptor_resume i pending status res s =
     (case refreshToken_resume pending res s of
        (Throws, s1) \<Rightarrow> set_phase i (Done (Rejected None)) s1
      | (Returns newToken, s1) \<Rightarrow>
          (if truthy newToken then
             set_phase i Queued ((set_authorization i (the newToken) s1)\<lparr>replays := replays s1 @ [i]\<rparr>)
           else set_phase i (Done (Rejected status)) (teardown s1)))"

subsection \<open>The event loop\<close>

text \<open>
  One event runs one uninterrupted block:
  \<^item> \<open>Issue i c\<close>: a caller calls \<^verbatim>\<open>apiClient\<close> with configuration \<open>c\<close>; \<open>i\<close> names the
    new request;
  \<^item> \<open>Enter i now\<close>: the request interceptor runs for the queued request \<open>i\<close>;
  \<^item> \<open>RefreshSettles i res\<close>: the \<^verbatim>\<open>refreshToken()\<close> that request \<open>i\<close> awaits settles
    (\<open>res\<close> is the answer of the renewal endpoint, read only if there was a POST), and
    the interceptor that awaited it continues;
  \<^item> \<open>Respond i resp\<close>: the response to the transmitted request \<open>i\<close> arrives and the
    response interceptor runs;
  \<^item> \<open>LoginSucceeds u a r\<close> and \<open>Logout\<close>: the auth store's actions.
  An event that does not fit the state it meets is refused (\<open>None\<close>).
\<close>

datatype 'u event =
    Issue rid config
  | Enter rid int
  | RefreshSettles rid post_result
  | Respond rid response
  | LoginSucceeds 'u string string
  | Logout

fun step :: "decoder \<Rightarrow> 'u event \<Rightarrow> 'u client_state \<Rightarrow> 'u client_state option" where
  "step dec (Issue i c) s =
     (case requests s i of
        None \<Rightarrow> Some (s\<lparr>requests := (requests s)(i \<mapsto> \<lparr>cfg = c, phase = Queued\<rparr>)\<rparr>)
      | Some r \<Rightarrow> None)"
| "step dec (Enter i now) s =
     (case phase_of s i of
        Some Queued \<Rightarrow> Some (request_interceptor dec i now s)
      | _ \<Rightarrow> None)"
| "step dec (RefreshSettles i res) s =
     (case phase_of s i of
        Some (OutRefreshing pending) \<Rightarrow> Some (request_interceptor_resume i pending res s)
      | Some (InRefreshing pending status) \<Rightarrow> Some (response_interceptor_resume i pending status res s)
      | _ \<Rightarrow> None)"
| "step dec (Respond i resp) s =
     (case phase_of s i of
        Some Sent \<Rightarrow> Some (response_interceptor i resp s)
      | _ \<Rightarrow> None)"
| "step dec (LoginSucceeds u a r) s = Some (login_success u a r s)"
| "step dec Logout s = Some (logout s)"

fun run :: "decoder \<Rightarrow> 'u event list \<Rightarrow> 'u client_state \<Rightarrow> 'u client_state option" where
  "run dec [] s = Some s"
| "run dec (e # es) s = (case step dec e s of None \<Rightarrow> None | Some s' \<Rightarrow> run dec es s')"

text \<open>The page as loaded: no renewal in flight, no subscriber, no request, nothing
  recorded yet; the stored credentials and the auth store are whatever they are.\<close>

definition initial :: "'u client_state \<Rightarrow> bool" where
  "initial s \<longleftrightarrow>
     \<not> isRefreshing s \<and> refreshSubscribers s = [] \<and> requests s = Map.empty \<and>
     posts s = [] \<and> transmitted s = [] \<and> notified s = [] \<and> replays s = [] \<and>
     navigations s = []"

subsection \<open>Observations and invariants\<close>

text \<open>The \<^verbatim>\<open>Authorization\<close> header of a request.\<close>

definition auth_header_of :: "'u client_state \<Rightarrow> rid \<Rightarrow> string option" where
  "auth_header_of s i = (case config_of s i of None \<Rightarrow> None | Some c \<Rightarrow> headers c ''Authorization'')"

text \<open>What the awaited \<^verbatim>\<open>refreshToken()\<close> resolves with, and the state it leaves:
  \<open>refreshToken_resume\<close> without the exception it catches.\<close>

definition refreshed :: "string option \<Rightarrow> post_result \<Rightarrow> string option" where
  "refreshed p res =
     (case p of None \<Rightarrow> None
      | Some r \<Rightarrow> (case res of PostOk a \<Rightarrow> Some a | PostHttpError n \<Rightarrow> None | PostNetworkError \<Rightarrow> None))"

definition persist_refreshed :: "string option \<Rightarrow> post_result \<Rightarrow> 'u client_state \<Rightarrow> 'u client_state" where
  "persist_refreshed p res s =
     (case refreshed p res of None \<Rightarrow> s | Some a \<Rightarrow> setItem ''access_token'' a s)"

text \<open>A request whose \<^verbatim>\<open>_retry\<close> is set; a request suspended in the response
  interceptor; a request suspended in the request interceptor as the one that renews.\<close>

definition retried :: "'u client_state \<Rightarrow> rid \<Rightarrow> bool" where
  "retried s i = (case config_of s i of None \<Rightarrow> False | Some c \<Rightarrow> retry_flag c)"

definition in_refresh :: "'u client_state \<Rightarrow> rid \<Rightarrow> bool" where
  "in_refresh s i = (case phase_of s i of Some (InRefreshing p st) \<Rightarrow> True | _ \<Rightarrow> False)"

definition out_refresh :: "'u client_state \<Rightarrow> rid \<Rightarrow> bool" where
  "out_refresh s i = (case phase_of s i of Some (OutRefreshing p) \<Rightarrow> True | _ \<Rightarrow> False)"

text \<open>Every subscriber is a request waiting in the request interceptor.\<close>

definition subscribers_wait :: "'u client_state \<Rightarrow> bool" where
  "subscribers_wait s \<longleftrightarrow> (\<forall>w\<in>set (refreshSubscribers s). phase_of s w = Some OutWaiting)"


text \<open>A request is replayed at most once, a replayed request carries \<^verbatim>\<open>_retry\<close>, and
  so does a request suspended in the response interceptor, which has not been replayed
  yet.\<close>

definition retry_inv :: "'u client_state \<Rightarrow> bool" where
  "retry_inv s \<longleftrightarrow>
     (\<forall>i. count_list (replays s) i \<le> 1 \<and>
          (i \<in> set (replays s) \<longrightarrow> retried s i \<and> \<not> in_refresh s i) \<and>
          (in_refresh s i \<longrightarrow> retried s i))"

text \<open>At most one request renews from the request interceptor, and only while
  \<open>isRefreshing\<close> is set.\<close>

definition single_flight :: "'u client_state \<Rightarrow> bool" where
  "single_flight s \<longleftrightarrow>
     (\<forall>i. out_refresh s i \<longrightarrow> isRefreshing s) \<and>
     (\<forall>i j. out_refresh s i \<longrightarrow> out_refresh s j \<longrightarrow> i = j)"

definition consistent :: "'u client_state \<Rightarrow> bool" where
  "consistent s \<longleftrightarrow> subscribers_wait s \<and> retry_inv s \<and> single_flight s"

text \<open>What a test of the guards looks at: the phase of request \<open>i\<close>, its
  \<^verbatim>\<open>Authorization\<close> header, the renewal calls made, the flag, and the requests
  dispatched in order; the renewal state alone; the redirects beside the renewal calls;
  and the two stored credentials.\<close>

definition guard_outcome ::
  "rid \<Rightarrow> 'u client_state \<Rightarrow> phase option \<times> string option \<times> string list \<times> bool \<times> rid list" where
  "guard_outcome i s =
     (phase_of s i, auth_header_of s i, posts s, isRefreshing s, map fst (transmitted s))"

definition renewal_state :: "'u client_state \<Rightarrow> bool \<times> rid list" where
  "renewal_state s = (isRefreshing s, refreshSubscribers s)"

definition session_signals :: "'u client_state \<Rightarrow> string list \<times> string list" where
  "session_signals s = (navigations s, posts s)"

definition stored_credentials :: "'u client_state \<Rightarrow> string option \<times> string option" where
  "stored_credentials s = (localStorage s ''access_token'', localStorage s ''refresh_token'')"

text \<open>
  Whether an event resumes a request whose awaited \<^verbatim>\<open>refreshToken()\<close> resolves with
  \<^verbatim>\<open>null\<close> or another falsy token, and how many events of a run do.
\<close>

definition settles_null :: "'u event \<Rightarrow> 'u client_state \<Rightarrow> bool" where
  "settles_null e s =
     (case e of
        RefreshSettles i res \<Rightarrow>
          (case phase_of s i of
             Some (OutRefreshing p) \<Rightarrow> \<not> truthy (refreshed p res)
           | Some (InRefreshing p st) \<Rightarrow> \<not> truthy (refreshed p res)
           | _ \<Rightarrow> False)
      | _ \<Rightarrow> False)"

fun null_renewals :: "decoder \<Rightarrow> 'u event list \<Rightarrow> 'u client_state \<Rightarrow> nat" where
  "null_renewals dec [] s = 0"
| "null_renewals dec (e # es) s =
     (case step dec e s of
        None \<Rightarrow> 0
      | Some s' \<Rightarrow> (if settles_null e s then 1 else 0) + null_renewals dec es s')"

subsection \<open>Concrete inputs\<close>

text \<open>A decoder for three tokens (expiry in seconds) that rejects every other string, a
  renewal endpoint that accepts the refresh token \<^verbatim>\<open>R1\<close>, a request, and the page as
  loaded with a given store.\<close>

definition ex_decoder :: decoder where
  "ex_decoder token =
     (if token = ''expired'' then Decoded (Finite 100)
      else if token = ''fresh'' then Decoded (Finite 5000)
      else if token = ''T2'' then Decoded (Finite 9000)
      else DecodeError)"

definition ex_renewal :: "string \<Rightarrow> post_result" where
  "ex_renewal r = (if r = ''R1'' then PostOk ''T2'' else PostHttpError 401)"

definition ex_config :: config where
  "ex_config = \<lparr>url = ''/matches/'', http_method = ''get'', body = None,
      headers = [''Content-Type'' \<mapsto> ''application/json''], retry_flag = False\<rparr>"

definition ex_store :: "string \<Rightarrow> storage" where
  "ex_store access = [''access_token'' \<mapsto> access, ''refresh_token'' \<mapsto> ''R1'']"

definition ex_state :: "storage \<Rightarrow> unit client_state" where
  "ex_state ls = \<lparr>localStorage = ls, auth_storage = None,
      auth = \<lparr>user = None, tokens = None, isAuthenticated = False, isLoading = False\<rparr>,
      isRefreshing = False, refreshSubscribers = [], requests = Map.empty,
      posts = [], transmitted = [], notified = [], replays = [], navigations = [],
      console_errors = 0\<rparr>"

text \<open>The same page with request \<open>0\<close> queued.\<close>

definition ex_queued :: "storage \<Rightarrow> unit client_state" where
  "ex_queued ls = (ex_state ls)\<lparr>requests := [0 \<mapsto> \<lparr>cfg = ex_config, phase = Queued\<rparr>]\<rparr>"

text \<open>Three requests meet an expired access token: request \<open>0\<close> renews, requests \<open>1\<close>
  and \<open>2\<close> subscribe.\<close>

definition ex_three_expired :: "unit event list" where
  "ex_three_expired =
     [Issue 0 ex_config, Enter 0 200000, Issue 1 ex_config, Enter 1 200000,
      Issue 2 ex_config, Enter 2 200000]"

definition ex_renewing :: "unit client_state" where
  "ex_renewing = the (run ex_decoder ex_three_expired (ex_state (ex_store ''expired'')))"

text \<open>The same with a fourth request queued.\<close>

definition ex_four :: "unit event list" where
  "ex_four = ex_three_expired @ [Issue 3 ex_config]"


text \<open>The page with request \<open>0\<close> queued as a replay: \<^verbatim>\<open>_retry\<close> is set and line 103 has
  attached the token \<open>tok\<close>.\<close>

definition ex_replayed :: "string \<Rightarrow> storage \<Rightarrow> unit client_state" where
  "ex_replayed tok ls =
     (ex_state ls)\<lparr>requests :=
        [0 \<mapsto> \<lparr>cfg = (with_authorization tok ex_config)\<lparr>retry_flag := True\<rparr>, phase = Queued\<rparr>]\<rparr>"

text \<open>A request is rejected with 401, the renewal returns a token that the client's
  clock finds expired, and the replay renews again from the request interceptor.\<close>

definition ex_stale_replay :: "unit event list" where
  "ex_stale_replay =
     [Issue 0 ex_config, Enter 0 1000, Respond 0 (Failure (Some 401)),
      RefreshSettles 0 (PostOk ''expired''), Enter 0 200000]"

definition ex_replay_renewing :: "unit client_state" where
  "ex_replay_renewing = the (run ex_decoder ex_stale_replay (ex_state (ex_store ''fresh'')))"

text \<open>One request meets an expired token, its renewal fails, and the request, sent all
  the same, is answered with 401.\<close>

definition ex_two_signals :: "unit event list" where
  "ex_two_signals =
     [Issue 0 ex_config, Enter 0 200000, RefreshSettles 0 PostNetworkError,
      Respond 0 (Failure (Some 401)), RefreshSettles 0 PostNetworkError]"


text \<open>Request \<open>0\<close> is sent while the token is valid; later the token has expired,
  request \<open>1\<close> renews from the request interceptor and request \<open>2\<close> subscribes;
  then request \<open>0\<close> is answered with 401.\<close>

definition ex_inbound_beside_waiters :: "unit event list" where
  "ex_inbound_beside_waiters =
     [Issue 0 ex_config, Enter 0 1000, Issue 1 ex_config, Enter 1 6000000,
      Issue 2 ex_config, Enter 2 6000000, Respond 0 (Failure (Some 401))]"

text \<open>One request is rejected with 401, renews, and is sent again.\<close>

definition ex_one_retry :: "unit event list" where
  "ex_one_retry =
     [Issue 0 ex_config, Enter 0 1000, Respond 0 (Failure (Some 401)),
      RefreshSettles 0 (PostOk ''T2''), Enter 0 2000]"

definition ex_retried :: "unit client_state" where
  "ex_retried = the (run ex_decoder ex_one_retry (ex_state (ex_store ''fresh'')))"

section \<open>Lemmas\<close>

subsection \<open>The clock\<close>

text \<open>A whole number below \<^verbatim>\<open>2^53\<close> is a double, and rounding leaves it alone; so the
  clock reads whole seconds exactly.\<close>

lemma round_ties_even_of_int [simp]: "round_ties_even (of_int m) = m"
  by (simp add: round_ties_even_def)

lemma binary64_of_int:
  assumes "\<bar>k\<bar> < 2 ^ 53"
  shows "binary64 (of_int k) = of_int k"
proof (cases "k = 0")
  case True
  then show ?thesis by (simp add: binary64_def)
next
  case False
  define x :: real where "x = \<bar>of_int k\<bar>"
  define e where "e = \<lfloor>log 2 x\<rfloor>"
  from False have x1: "1 \<le> x" by (simp add: x_def)
  from assms have x53: "x < 2 ^ 53"
    unfolding x_def by (metis of_int_abs of_int_less_numeral_power_cancel_iff)
  have e0: "0 \<le> e" using x1 by (simp add: e_def)
  have "log 2 x < 53"
    using x1 x53 by (simp add: log_less_iff)
  then have e52: "e \<le> 52" by (simp add: e_def floor_le_iff)
  define d where "d = nat (52 - e)"
  have q: "(2::real) powi (e - 52) = 1 / 2 ^ d"
    using e52 by (simp add: power_int_def d_def inverse_eq_divide power_one_over)
  have "x / (2 powi (e - 52)) = of_int (\<bar>k\<bar> * 2 ^ d)"
    by (simp add: q x_def)
  then have "round_ties_even (x / (2 powi (e - 52))) = \<bar>k\<bar> * 2 ^ d"
    by (simp only: round_ties_even_of_int)
  then have "of_int (round_ties_even (x / (2 powi (e - 52)))) * (2 powi (e - 52)) = x"
    by (simp add: q x_def)
  with False show ?thesis
    by (simp add: binary64_def Let_def x_def e_def sgn_if abs_if split: if_splits)
qed

lemma currentTime_whole: "\<bar>k\<bar> < 2 ^ 53 \<Longrightarrow> currentTime (1000 * k) = of_int k"
  using binary64_of_int [of k] by (simp add: currentTime_def)



subsection \<open>What the primitives leave alone\<close>

lemma set_phase_fields [simp]:
  "localStorage (set_phase i p s) = localStorage s"
  "isRefreshing (set_phase i p s) = isRefreshing s"
  "refreshSubscribers (set_phase i p s) = refreshSubscribers s"
  "posts (set_phase i p s) = posts s"
  "transmitted (set_phase i p s) = transmitted s"
  "replays (set_phase i p s) = replays s"
  "notified (set_phase i p s) = notified s"
  "navigations (set_phase i p s) = navigations s"
  by (simp_all add: set_phase_def split: option.splits)

lemma set_authorization_fields [simp]:
  "localStorage (set_authorization i t s) = localStorage s"
  "isRefreshing (set_authorization i t s) = isRefreshing s"
  "refreshSubscribers (set_authorization i t s) = refreshSubscribers s"
  "posts (set_authorization i t s) = posts s"
  "transmitted (set_authorization i t s) = transmitted s"
  "replays (set_authorization i t s) = replays s"
  "notified (set_authorization i t s) = notified s"
  "navigations (set_authorization i t s) = navigations s"
  by (simp_all add: set_authorization_def split: option.splits)

lemma set_retry_fields [simp]:
  "localStorage (set_retry i s) = localStorage s"
  "isRefreshing (set_retry i s) = isRefreshing s"
  "refreshSubscribers (set_retry i s) = refreshSubscribers s"
  "posts (set_retry i s) = posts s"
  "transmitted (set_retry i s) = transmitted s"
  "replays (set_retry i s) = replays s"
  "notified (set_retry i s) = notified s"
  "navigations (set_retry i s) = navigations s"
  by (simp_all add: set_retry_def split: option.splits)

lemma return_config_fields [simp]:
  "localStorage (return_config i s) = localStorage s"
  "isRefreshing (return_config i s) = isRefreshing s"
  "refreshSubscribers (return_config i s) = refreshSubscribers s"
  "posts (return_config i s) = posts s"
  "replays (return_config i s) = replays s"
  "notified (return_config i s) = notified s"
  "navigations (return_config i s) = navigations s"
  by (simp_all add: return_config_def split: option.splits)

lemma teardown_fields [simp]:
  "localStorage (teardown s) = ((localStorage s)(''access_token'' := None))(''refresh_token'' := None)"
  "isRefreshing (teardown s) = isRefreshing s"
  "refreshSubscribers (teardown s) = refreshSubscribers s"
  "requests (teardown s) = requests s"
  "posts (teardown s) = posts s"
  "transmitted (teardown s) = transmitted s"
  "replays (teardown s) = replays s"
  "notified (teardown s) = notified s"
  "navigations (teardown s) = navigations s @ [''/login'']"
  by (simp_all add: teardown_def logout_def navigate_def set_store_def removeItem_def)

lemma logout_fields [simp]:
  "isRefreshing (logout s) = isRefreshing s"
  "refreshSubscribers (logout s) = refreshSubscribers s"
  "requests (logout s) = requests s"
  "posts (logout s) = posts s"
  "transmitted (logout s) = transmitted s"
  "replays (logout s) = replays s"
  "notified (logout s) = notified s"
  "navigations (logout s) = navigations s"
  by (simp_all add: logout_def set_store_def removeItem_def)

lemma login_success_fields [simp]:
  "isRefreshing (login_success u a r s) = isRefreshing s"
  "refreshSubscribers (login_success u a r s) = refreshSubscribers s"
  "requests (login_success u a r s) = requests s"
  "posts (login_success u a r s) = posts s"
  "transmitted (login_success u a r s) = transmitted s"
  "replays (login_success u a r s) = replays s"
  "notified (login_success u a r s) = notified s"
  "navigations (login_success u a r s) = navigations s"
  by (simp_all add: login_success_def set_store_def setItem_def)

lemma setItem_fields [simp]:
  "localStorage (setItem k v s) = (localStorage s)(k \<mapsto> v)"
  "isRefreshing (setItem k v s) = isRefreshing s"
  "refreshSubscribers (setItem k v s) = refreshSubscribers s"
  "requests (setItem k v s) = requests s"
  "posts (setItem k v s) = posts s"
  "transmitted (setItem k v s) = transmitted s"
  "replays (setItem k v s) = replays s"
  "notified (setItem k v s) = notified s"
  "navigations (setItem k v s) = navigations s"
  by (simp_all add: setItem_def)

subsection \<open>What the primitives do to one request\<close>

lemma phase_of_None: "phase_of s i = None \<longleftrightarrow> requests s i = None"
  by (simp add: phase_of_def)

lemma phase_of_set_phase:
  "phase_of (set_phase i p s) j = (if j = i \<and> phase_of s i \<noteq> None then Some p else phase_of s j)"
  by (simp add: set_phase_def phase_of_def split: option.splits)

lemma config_of_set_phase [simp]: "config_of (set_phase i p s) j = config_of s j"
  by (simp add: set_phase_def config_of_def split: option.splits)

lemma phase_of_set_authorization [simp]: "phase_of (set_authorization i t s) j = phase_of s j"
  by (simp add: set_authorization_def phase_of_def split: option.splits)

lemma config_of_set_authorization:
  "config_of (set_authorization i t s) j =
     (if j = i then map_option (with_authorization t) (config_of s i) else config_of s j)"
  by (simp add: set_authorization_def config_of_def split: option.splits)

lemma phase_of_set_retry [simp]: "phase_of (set_retry i s) j = phase_of s j"
  by (simp add: set_retry_def phase_of_def split: option.splits)

lemma config_of_set_retry:
  "config_of (set_retry i s) j =
     (if j = i then map_option (\<lambda>c. c\<lparr>retry_flag := True\<rparr>) (config_of s i) else config_of s j)"
  by (simp add: set_retry_def config_of_def split: option.splits)

lemma phase_of_return_config:
  "phase_of (return_config i s) j = (if j = i \<and> phase_of s i \<noteq> None then Some Sent else phase_of s j)"
  by (simp add: return_config_def phase_of_def split: option.splits)

lemma config_of_return_config [simp]: "config_of (return_config i s) j = config_of s j"
  by (simp add: return_config_def config_of_def split: option.splits)


lemma retry_flag_with_authorization [simp]:
  "retry_flag (with_authorization t c) = retry_flag c"
  by (simp add: with_authorization_def)

lemma headers_with_authorization [simp]:
  "headers (with_authorization t c) ''Authorization'' = Some (bearer t)"
  by (simp add: with_authorization_def)

lemma with_authorization_idem [simp]:
  "with_authorization t (with_authorization t c) = with_authorization t c"
  by (simp add: with_authorization_def)

lemmas request_prims = phase_of_set_phase config_of_set_authorization config_of_set_retry
  phase_of_return_config

subsection \<open>The subscribers' callbacks\<close>

lemma fold_callback_fields [simp]:
  "localStorage (fold (subscriber_callback t) ws s) = localStorage s"
  "isRefreshing (fold (subscriber_callback t) ws s) = isRefreshing s"
  "refreshSubscribers (fold (subscriber_callback t) ws s) = refreshSubscribers s"
  "posts (fold (subscriber_callback t) ws s) = posts s"
  "transmitted (fold (subscriber_callback t) ws s) = transmitted s"
  "replays (fold (subscriber_callback t) ws s) = replays s"
  "navigations (fold (subscriber_callback t) ws s) = navigations s"
  by (induction ws arbitrary: s; simp add: subscriber_callback_def)+

lemma phase_of_subscriber_callback [simp]:
  "phase_of (subscriber_callback t i s) j = phase_of s j"
  by (simp add: subscriber_callback_def phase_of_def set_authorization_def split: option.splits)

lemma phase_of_fold_callback [simp]:
  "phase_of (fold (subscriber_callback t) ws s) j = phase_of s j"
  by (induction ws arbitrary: s) simp_all

lemma notified_fold_callback:
  "notified (fold (subscriber_callback t) ws s) = notified s @ map (\<lambda>w. (w, t)) ws"
  by (induction ws arbitrary: s) (simp_all add: subscriber_callback_def)

lemma config_of_subscriber_callback:
  "config_of (subscriber_callback t i s) j =
     (if j = i then map_option (with_authorization t) (config_of s i) else config_of s j)"
  by (simp add: subscriber_callback_def config_of_def set_authorization_def split: option.splits)

lemma config_of_fold_callback:
  "config_of (fold (subscriber_callback t) ws s) j =
     (if j \<in> set ws then map_option (with_authorization t) (config_of s j) else config_of s j)"
  by (induction ws arbitrary: s)
     (auto simp: config_of_subscriber_callback option.map_comp comp_def)

lemma fold_return_config_fields [simp]:
  "localStorage (fold return_config ws s) = localStorage s"
  "isRefreshing (fold return_config ws s) = isRefreshing s"
  "refreshSubscribers (fold return_config ws s) = refreshSubscribers s"
  "posts (fold return_config ws s) = posts s"
  "notified (fold return_config ws s) = notified s"
  "replays (fold return_config ws s) = replays s"
  "navigations (fold return_config ws s) = navigations s"
  "config_of (fold return_config ws s) j = config_of s j"
  by (induction ws arbitrary: s; simp)+

lemma phase_of_fold_return_config:
  "phase_of (fold return_config ws s) j =
     (if j \<in> set ws \<and> phase_of s j \<noteq> None then Some Sent else phase_of s j)"
  by (induction ws arbitrary: s) (auto simp: phase_of_return_config)


subsection \<open>The blocks as equations\<close>

lemma phase_of_updates [simp]:
  "phase_of (s\<lparr>isRefreshing := b\<rparr>) = phase_of s"
  "phase_of (s\<lparr>refreshSubscribers := ws\<rparr>) = phase_of s"
  "phase_of (s\<lparr>posts := ps\<rparr>) = phase_of s"
  "phase_of (s\<lparr>replays := rs\<rparr>) = phase_of s"
  "phase_of (s\<lparr>notified := ns\<rparr>) = phase_of s"
  "phase_of (s\<lparr>console_errors := n\<rparr>) = phase_of s"
  "phase_of (teardown s) = phase_of s"
  "phase_of (logout s) = phase_of s"
  "phase_of (login_success u a r s) = phase_of s"
  "phase_of (setItem k v s) = phase_of s"
  "phase_of (subscribeTokenRefresh i s) = phase_of s"
  by (simp_all add: phase_of_def fun_eq_iff subscribeTokenRefresh_def)

lemma config_of_updates [simp]:
  "config_of (s\<lparr>isRefreshing := b\<rparr>) = config_of s"
  "config_of (s\<lparr>refreshSubscribers := ws\<rparr>) = config_of s"
  "config_of (s\<lparr>posts := ps\<rparr>) = config_of s"
  "config_of (s\<lparr>replays := rs\<rparr>) = config_of s"
  "config_of (s\<lparr>notified := ns\<rparr>) = config_of s"
  "config_of (s\<lparr>console_errors := n\<rparr>) = config_of s"
  "config_of (teardown s) = config_of s"
  "config_of (logout s) = config_of s"
  "config_of (login_success u a r s) = config_of s"
  "config_of (setItem k v s) = config_of s"
  "config_of (subscribeTokenRefresh i s) = config_of s"
  by (simp_all add: config_of_def fun_eq_iff subscribeTokenRefresh_def)

lemma phase_of_issue:
  "phase_of (s\<lparr>requests := (requests s)(i \<mapsto> \<lparr>cfg = c, phase = Queued\<rparr>)\<rparr>) j =
     (if j = i then Some Queued else phase_of s j)"
  by (simp add: phase_of_def)

lemma refreshToken_resume_eq:
  "refreshToken_resume p res s = (Returns (refreshed p res), persist_refreshed p res s)"
  by (simp add: refreshToken_resume_def refreshToken_try_def refreshed_def persist_refreshed_def
      split: option.splits post_result.splits)

lemma persist_refreshed_fields [simp]:
  "isRefreshing (persist_refreshed p res s) = isRefreshing s"
  "refreshSubscribers (persist_refreshed p res s) = refreshSubscribers s"
  "requests (persist_refreshed p res s) = requests s"
  "posts (persist_refreshed p res s) = posts s"
  "transmitted (persist_refreshed p res s) = transmitted s"
  "replays (persist_refreshed p res s) = replays s"
  "notified (persist_refreshed p res s) = notified s"
  "navigations (persist_refreshed p res s) = navigations s"
  "phase_of (persist_refreshed p res s) = phase_of s"
  "config_of (persist_refreshed p res s) = config_of s"
  by (simp_all add: persist_refreshed_def split: option.splits)

lemma refreshToken_call_fields [simp]:
  "localStorage (snd (refreshToken_call s)) = localStorage s"
  "isRefreshing (snd (refreshToken_call s)) = isRefreshing s"
  "refreshSubscribers (snd (refreshToken_call s)) = refreshSubscribers s"
  "requests (snd (refreshToken_call s)) = requests s"
  "transmitted (snd (refreshToken_call s)) = transmitted s"
  "replays (snd (refreshToken_call s)) = replays s"
  "notified (snd (refreshToken_call s)) = notified s"
  "navigations (snd (refreshToken_call s)) = navigations s"
  "phase_of (snd (refreshToken_call s)) = phase_of s"
  "config_of (snd (refreshToken_call s)) = config_of s"
  by (simp_all add: refreshToken_call_def phase_of_def config_of_def fun_eq_iff)

lemma request_interceptor_eq:
  "request_interceptor dec i now s =
     (case localStorage s ''access_token'' of
        None \<Rightarrow> return_config i s
      | Some token \<Rightarrow>
          if token = [] then return_config i s
          else (case dec token of
                  DecodeError \<Rightarrow> return_config i (s\<lparr>console_errors := Suc (console_errors s)\<rparr>)
                | Decoded e \<Rightarrow>
                    if js_less e (currentTime now) then
                      if isRefreshing s then set_phase i OutWaiting (subscribeTokenRefresh i s)
                      else set_phase i (OutRefreshing (fst (refreshToken_call (s\<lparr>isRefreshing := True\<rparr>))))
                             (snd (refreshToken_call (s\<lparr>isRefreshing := True\<rparr>)))
                    else return_config i (set_authorization i token s)))"
  by (simp add: request_interceptor_def truthy_def Let_def split_beta
      split: option.splits decode_result.splits)

lemma request_interceptor_resume_eq:
  "request_interceptor_resume i p res s =
     (case refreshed p res of
        None \<Rightarrow> return_config i (teardown (s\<lparr>isRefreshing := False\<rparr>))
      | Some a \<Rightarrow>
          if a = [] then return_config i (teardown ((setItem ''access_token'' a s)\<lparr>isRefreshing := False\<rparr>))
          else fold return_config (refreshSubscribers s)
                 (return_config i (set_authorization i a
                    (onTokenRefreshed a ((setItem ''access_token'' a s)\<lparr>isRefreshing := False\<rparr>)))))"
  by (simp add: request_interceptor_resume_def refreshToken_resume_eq persist_refreshed_def
      truthy_def Let_def split: option.splits)

lemma response_interceptor_resume_eq:
  "response_interceptor_resume i p st res s =
     (case refreshed p res of
        None \<Rightarrow> set_phase i (Done (Rejected st)) (teardown s)
      | Some a \<Rightarrow>
          if a = [] then set_phase i (Done (Rejected st)) (teardown (setItem ''access_token'' a s))
          else set_phase i Queued
                 ((set_authorization i a (setItem ''access_token'' a s))\<lparr>replays := replays s @ [i]\<rparr>))"
  by (simp add: response_interceptor_resume_def refreshToken_resume_eq persist_refreshed_def
      truthy_def Let_def split: option.splits)

lemma response_interceptor_eq:
  assumes "config_of s i = Some c"
  shows "response_interceptor i resp s =
     (case resp of
        Success \<Rightarrow> set_phase i (Done Resolved) s
      | Failure st \<Rightarrow>
          if st = Some 401 \<and> \<not> retry_flag c
          then set_phase i (InRefreshing (fst (refreshToken_call (set_retry i s))) st)
                 (snd (refreshToken_call (set_retry i s)))
          else set_phase i (Done (Rejected st)) s)"
  using assms by (simp add: response_interceptor_def split_beta split: response.splits)

lemma onTokenRefreshed_fields [simp]:
  "localStorage (onTokenRefreshed t s) = localStorage s"
  "isRefreshing (onTokenRefreshed t s) = isRefreshing s"
  "refreshSubscribers (onTokenRefreshed t s) = []"
  "posts (onTokenRefreshed t s) = posts s"
  "transmitted (onTokenRefreshed t s) = transmitted s"
  "notified (onTokenRefreshed t s) = notified s @ map (\<lambda>w. (w, t)) (refreshSubscribers s)"
  "replays (onTokenRefreshed t s) = replays s"
  "navigations (onTokenRefreshed t s) = navigations s"
  "phase_of (onTokenRefreshed t s) j = phase_of s j"
  by (simp_all add: onTokenRefreshed_def notified_fold_callback)

lemma config_of_onTokenRefreshed:
  "config_of (onTokenRefreshed t s) j =
     (if j \<in> set (refreshSubscribers s) then map_option (with_authorization t) (config_of s j)
      else config_of s j)"
  by (simp add: onTokenRefreshed_def config_of_fold_callback)

subsection \<open>Subscribers and the flag\<close>

lemma step_subscribers_wait:
  assumes "subscribers_wait s" and "step dec e s = Some s'"
  shows "subscribers_wait s'"
proof (cases e)
  case (Issue i c)
  with assms show ?thesis
    by (fastforce simp: subscribers_wait_def phase_of_issue phase_of_None[symmetric] split: option.splits)
next
  case (Enter i now)
  with assms show ?thesis
    by (auto simp: subscribers_wait_def request_interceptor_eq request_prims
        subscribeTokenRefresh_def
        split: option.splits phase.splits decode_result.splits if_splits)
next
  case (RefreshSettles i res)
  show ?thesis
  proof (cases "phase_of s i")
    case None
    with assms RefreshSettles show ?thesis by simp
  next
    case (Some ph)
    show ?thesis
    proof (cases ph)
      case (OutRefreshing p)
      with Some assms RefreshSettles
      have s': "s' = request_interceptor_resume i p res s" by simp
      from assms(1) Some OutRefreshing show ?thesis
        unfolding s'
        by (auto simp: subscribers_wait_def request_prims request_interceptor_resume_eq
            split: option.splits)
    next
      case (InRefreshing p st)
      with Some assms RefreshSettles
      have s': "s' = response_interceptor_resume i p st res s" by simp
      from assms(1) Some InRefreshing show ?thesis
        unfolding s'
        by (auto simp: subscribers_wait_def request_prims response_interceptor_resume_eq
            split: option.splits)
    qed (use Some assms RefreshSettles in auto)
  qed
next
  case (Respond i resp)
  show ?thesis
  proof (cases "phase_of s i = Some Sent")
    case True
    with assms Respond have s': "s' = response_interceptor i resp s" by simp
    from True obtain c where c: "config_of s i = Some c"
      by (auto simp: phase_of_def config_of_def)
    from assms(1) True show ?thesis
      unfolding s'
      by (auto simp: subscribers_wait_def request_prims response_interceptor_eq [OF c]
          split: response.splits)
  next
    case False
    with assms Respond show ?thesis
      by (auto split: option.splits phase.splits)
  qed
next
  case (LoginSucceeds u a r)
  with assms show ?thesis
    by (auto simp: subscribers_wait_def)
next
  case Logout
  with assms show ?thesis
    by (auto simp: subscribers_wait_def)
qed


subsection \<open>Retries\<close>

lemma retried_simps [simp]:
  "retried (set_phase i p s) j = retried s j"
  "retried (return_config i s) j = retried s j"
  "retried (set_authorization i t s) j = retried s j"
  "retried (onTokenRefreshed t s) j = retried s j"
  "retried (fold return_config ws s) j = retried s j"
  "retried (teardown s) j = retried s j"
  "retried (logout s) j = retried s j"
  "retried (login_success u a r s) j = retried s j"
  "retried (setItem k v s) j = retried s j"
  "retried (subscribeTokenRefresh i s) j = retried s j"
  "retried (snd (refreshToken_call s)) j = retried s j"
  "retried (s\<lparr>isRefreshing := b\<rparr>) j = retried s j"
  "retried (s\<lparr>replays := rs\<rparr>) j = retried s j"
  "retried (s\<lparr>console_errors := n\<rparr>) j = retried s j"
  by (auto simp: retried_def config_of_set_authorization config_of_onTokenRefreshed
      split: option.splits)

lemma retried_set_retry: "retried (set_retry i s) j = (if j = i then config_of s i \<noteq> None else retried s j)"
  by (auto simp: retried_def config_of_set_retry split: option.splits)

lemma in_refresh_simps [simp]:
  "in_refresh (set_authorization i t s) j = in_refresh s j"
  "in_refresh (set_retry i s) j = in_refresh s j"
  "in_refresh (teardown s) j = in_refresh s j"
  "in_refresh (logout s) j = in_refresh s j"
  "in_refresh (login_success u a r s) j = in_refresh s j"
  "in_refresh (setItem k v s) j = in_refresh s j"
  "in_refresh (subscribeTokenRefresh i s) j = in_refresh s j"
  "in_refresh (snd (refreshToken_call s)) j = in_refresh s j"
  "in_refresh (s\<lparr>isRefreshing := b\<rparr>) j = in_refresh s j"
  "in_refresh (s\<lparr>replays := rs\<rparr>) j = in_refresh s j"
  "in_refresh (s\<lparr>console_errors := n\<rparr>) j = in_refresh s j"
  by (simp_all add: in_refresh_def)

lemma in_refresh_set_phase:
  "in_refresh (set_phase i p s) j =
     (if j = i \<and> phase_of s i \<noteq> None then (case p of InRefreshing a b \<Rightarrow> True | _ \<Rightarrow> False)
      else in_refresh s j)"
  by (auto simp: in_refresh_def phase_of_set_phase split: option.splits phase.splits)

lemma in_refresh_return_config:
  "in_refresh (return_config i s) j = (if j = i then False else in_refresh s j)"
  by (auto simp: in_refresh_def phase_of_return_config split: option.splits)

lemma in_refresh_onTokenRefreshed [simp]:
  "in_refresh (onTokenRefreshed t s) j = in_refresh s j"
  by (simp add: in_refresh_def)

lemma in_refresh_fold_return_config [simp]:
  "in_refresh (fold return_config ws s) j \<longleftrightarrow> j \<notin> set ws \<and> in_refresh s j"
  by (auto simp: in_refresh_def phase_of_fold_return_config split: option.splits phase.splits)

lemma subscribeTokenRefresh_fields [simp]:
  "localStorage (subscribeTokenRefresh i s) = localStorage s"
  "isRefreshing (subscribeTokenRefresh i s) = isRefreshing s"
  "refreshSubscribers (subscribeTokenRefresh i s) = refreshSubscribers s @ [i]"
  "requests (subscribeTokenRefresh i s) = requests s"
  "posts (subscribeTokenRefresh i s) = posts s"
  "transmitted (subscribeTokenRefresh i s) = transmitted s"
  "replays (subscribeTokenRefresh i s) = replays s"
  "notified (subscribeTokenRefresh i s) = notified s"
  "navigations (subscribeTokenRefresh i s) = navigations s"
  by (simp_all add: subscribeTokenRefresh_def)

lemma step_retry_inv:
  assumes "retry_inv s" and "step dec e s = Some s'"
  shows "retry_inv s'"
proof (cases e)
  case (Issue i c)
  with assms have none: "requests s i = None"
    and s': "s' = s\<lparr>requests := (requests s)(i \<mapsto> \<lparr>cfg = c, phase = Queued\<rparr>)\<rparr>"
    by (auto split: option.splits)
  from none have "\<not> retried s i" "\<not> in_refresh s i"
    by (simp_all add: retried_def in_refresh_def config_of_def phase_of_def)
  moreover have "\<And>j. j \<noteq> i \<Longrightarrow> retried s' j = retried s j \<and> in_refresh s' j = in_refresh s j"
    by (simp add: s' retried_def in_refresh_def config_of_def phase_of_def)
  moreover have "\<not> in_refresh s' i" "replays s' = replays s"
    by (simp_all add: s' in_refresh_def phase_of_def)
  ultimately show ?thesis using assms(1)
    unfolding retry_inv_def by metis
next
  case (Enter i now)
  with assms show ?thesis
    by (auto simp: retry_inv_def request_interceptor_eq in_refresh_set_phase in_refresh_return_config
        split: option.splits phase.splits decode_result.splits if_splits)
next
  case (RefreshSettles i res)
  show ?thesis
  proof (cases "phase_of s i")
    case None
    with assms RefreshSettles show ?thesis by simp
  next
    case (Some ph)
    show ?thesis
    proof (cases ph)
      case (OutRefreshing p)
      with Some assms RefreshSettles
      have s': "s' = request_interceptor_resume i p res s" by simp
      from assms(1) show ?thesis
        unfolding s'
        by (auto simp: retry_inv_def request_interceptor_resume_eq in_refresh_return_config split: option.splits)
    next
      case (InRefreshing p st)
      with Some assms RefreshSettles
      have s': "s' = response_interceptor_resume i p st res s" by simp
      from Some InRefreshing have now: "in_refresh s i"
        by (simp add: in_refresh_def)
      with assms(1) have fresh: "i \<notin> set (replays s)" and flag: "retried s i"
        by (auto simp: retry_inv_def)
      from fresh have zero: "count_list (replays s) i = 0"
        by (simp add: count_list_0_iff)
      from assms(1) Some fresh flag zero show ?thesis
        unfolding s'
        by (auto simp: retry_inv_def response_interceptor_resume_eq in_refresh_set_phase
            split: option.splits)
    qed (use Some assms RefreshSettles in auto)
  qed
next
  case (Respond i resp)
  show ?thesis
  proof (cases "phase_of s i = Some Sent")
    case True
    with assms Respond have s': "s' = response_interceptor i resp s" by simp
    from True obtain c where c: "config_of s i = Some c"
      by (auto simp: phase_of_def config_of_def)
    have fresh: "i \<notin> set (replays s)" if "\<not> retry_flag c"
      using that assms(1) c by (auto simp: retry_inv_def retried_def)
    from assms(1) True c fresh show ?thesis
      unfolding s'
      by (auto simp: retry_inv_def response_interceptor_eq [OF c] in_refresh_set_phase
          retried_set_retry split: response.splits)
  next
    case False
    with assms Respond show ?thesis
      by (auto split: option.splits phase.splits)
  qed
next
  case (LoginSucceeds u a r)
  with assms show ?thesis
    by (auto simp: retry_inv_def)
next
  case Logout
  with assms show ?thesis
    by (auto simp: retry_inv_def)
qed

subsection \<open>One renewal at a time from the request interceptor\<close>

lemma out_refresh_simps [simp]:
  "out_refresh (set_authorization i t s) j = out_refresh s j"
  "out_refresh (set_retry i s) j = out_refresh s j"
  "out_refresh (teardown s) j = out_refresh s j"
  "out_refresh (logout s) j = out_refresh s j"
  "out_refresh (login_success u a r s) j = out_refresh s j"
  "out_refresh (setItem k v s) j = out_refresh s j"
  "out_refresh (subscribeTokenRefresh i s) j = out_refresh s j"
  "out_refresh (snd (refreshToken_call s)) j = out_refresh s j"
  "out_refresh (s\<lparr>isRefreshing := b\<rparr>) j = out_refresh s j"
  "out_refresh (s\<lparr>replays := rs\<rparr>) j = out_refresh s j"
  "out_refresh (s\<lparr>console_errors := n\<rparr>) j = out_refresh s j"
  by (simp_all add: out_refresh_def)

lemma out_refresh_set_phase:
  "out_refresh (set_phase i p s) j =
     (if j = i \<and> phase_of s i \<noteq> None then (case p of OutRefreshing a \<Rightarrow> True | _ \<Rightarrow> False)
      else out_refresh s j)"
  by (auto simp: out_refresh_def phase_of_set_phase split: option.splits phase.splits)

lemma out_refresh_return_config:
  "out_refresh (return_config i s) j = (if j = i then False else out_refresh s j)"
  by (auto simp: out_refresh_def phase_of_return_config split: option.splits)

lemma out_refresh_onTokenRefreshed [simp]:
  "out_refresh (onTokenRefreshed t s) j = out_refresh s j"
  by (simp add: out_refresh_def)

lemma out_refresh_fold_return_config [simp]:
  "out_refresh (fold return_config ws s) j \<longleftrightarrow> j \<notin> set ws \<and> out_refresh s j"
  by (auto simp: out_refresh_def phase_of_fold_return_config split: option.splits phase.splits)

lemma step_single_flight:
  assumes "single_flight s" and "step dec e s = Some s'"
  shows "single_flight s'"
proof (cases e)
  case (Issue i c)
  with assms have none: "phase_of s i = None"
    and s': "s' = s\<lparr>requests := (requests s)(i \<mapsto> \<lparr>cfg = c, phase = Queued\<rparr>)\<rparr>"
    by (auto simp: phase_of_None split: option.splits)
  have "out_refresh s' j = out_refresh s j" for j
    using none by (auto simp: s' out_refresh_def phase_of_issue)
  moreover have "isRefreshing s' = isRefreshing s" by (simp add: s')
  ultimately show ?thesis using assms(1) by (simp add: single_flight_def)
next
  case (Enter i now)
  with assms show ?thesis
    by (auto simp: single_flight_def request_interceptor_eq out_refresh_set_phase
        out_refresh_return_config
        split: option.splits phase.splits decode_result.splits if_splits)
next
  case (RefreshSettles i res)
  show ?thesis
  proof (cases "phase_of s i")
    case None
    with assms RefreshSettles show ?thesis by simp
  next
    case (Some ph)
    show ?thesis
    proof (cases ph)
      case (OutRefreshing p)
      with Some assms RefreshSettles
      have s': "s' = request_interceptor_resume i p res s" by simp
      from Some OutRefreshing have "out_refresh s i" by (simp add: out_refresh_def)
      with assms(1) have only: "\<And>j. out_refresh s j \<Longrightarrow> j = i"
        by (auto simp: single_flight_def)
      have "\<not> out_refresh s' j" for j
        using only [of j]
        by (auto simp: s' request_interceptor_resume_eq out_refresh_return_config split: option.splits if_splits)
      then show ?thesis by (simp add: single_flight_def)
    next
      case (InRefreshing p st)
      with Some assms RefreshSettles
      have s': "s' = response_interceptor_resume i p st res s" by simp
      from assms(1) Some InRefreshing show ?thesis
        unfolding s'
        by (auto simp: single_flight_def response_interceptor_resume_eq out_refresh_set_phase
            split: option.splits if_splits)
    qed (use Some assms RefreshSettles in auto)
  qed
next
  case (Respond i resp)
  show ?thesis
  proof (cases "phase_of s i = Some Sent")
    case True
    with assms Respond have s': "s' = response_interceptor i resp s" by simp
    from True obtain c where c: "config_of s i = Some c"
      by (auto simp: phase_of_def config_of_def)
    from assms(1) True show ?thesis
      unfolding s'
      by (auto simp: single_flight_def response_interceptor_eq [OF c] out_refresh_set_phase
          split: response.splits if_splits)
  next
    case False
    with assms Respond show ?thesis
      by (auto split: option.splits phase.splits)
  qed
next
  case (LoginSucceeds u a r)
  with assms show ?thesis
    by (auto simp: single_flight_def)
next
  case Logout
  with assms show ?thesis
    by (auto simp: single_flight_def)
qed

subsection \<open>The invariants along a run\<close>

lemma initial_consistent: "initial s \<Longrightarrow> consistent s"
  by (simp add: initial_def consistent_def subscribers_wait_def retry_inv_def single_flight_def
      retried_def in_refresh_def out_refresh_def phase_of_def config_of_def)


lemma run_consistent: "run dec evs s = Some s' \<Longrightarrow> consistent s \<Longrightarrow> consistent s'"
proof (induction evs arbitrary: s)
  case Nil
  then show ?case by simp
next
  case (Cons e evs)
  from Cons.prems(1) obtain s1 where 1: "step dec e s = Some s1" and 2: "run dec evs s1 = Some s'"
    by (auto split: option.splits)
  from Cons.prems(2) 1 have "consistent s1"
    by (auto simp: consistent_def intro: step_subscribers_wait step_retry_inv step_single_flight)
  with Cons.IH [OF 2] show ?case .
qed


subsection \<open>Redirects along a run\<close>

text \<open>A step adds a redirect exactly when it resumes a request whose renewal resolved
  with a falsy token.\<close>

lemma step_navigations:
  assumes "step dec e s = Some s'"
  shows "length (navigations s') = length (navigations s) + (if settles_null e s then 1 else 0)"
proof (cases e)
  case (Issue i c)
  with assms show ?thesis
    by (auto simp: settles_null_def split: option.splits)
next
  case (Enter i now)
  with assms show ?thesis
    by (auto simp: settles_null_def request_interceptor_eq
        split: option.splits phase.splits decode_result.splits if_splits)
next
  case (RefreshSettles i res)
  show ?thesis
  proof (cases "phase_of s i")
    case None
    with assms RefreshSettles show ?thesis by simp
  next
    case (Some ph)
    show ?thesis
    proof (cases ph)
      case (OutRefreshing p)
      with Some assms RefreshSettles
      have s': "s' = request_interceptor_resume i p res s" by simp
      from Some OutRefreshing RefreshSettles show ?thesis
        unfolding s'
        by (auto simp: settles_null_def truthy_def request_interceptor_resume_eq
            split: option.splits)
    next
      case (InRefreshing p st)
      with Some assms RefreshSettles
      have s': "s' = response_interceptor_resume i p st res s" by simp
      from Some InRefreshing RefreshSettles show ?thesis
        unfolding s'
        by (auto simp: settles_null_def truthy_def response_interceptor_resume_eq
            split: option.splits)
    qed (use Some assms RefreshSettles in auto)
  qed
next
  case (Respond i resp)
  show ?thesis
  proof (cases "phase_of s i = Some Sent")
    case True
    with assms Respond have s': "s' = response_interceptor i resp s" by simp
    from True obtain c where c: "config_of s i = Some c"
      by (auto simp: phase_of_def config_of_def)
    from Respond show ?thesis
      unfolding s'
      by (auto simp: settles_null_def response_interceptor_eq [OF c] split: response.splits)
  next
    case False
    with assms Respond show ?thesis
      by (auto split: option.splits phase.splits)
  qed
next
  case (LoginSucceeds u a r)
  with assms show ?thesis
    by (auto simp: settles_null_def)
next
  case Logout
  with assms show ?thesis
    by (auto simp: settles_null_def)
qed

lemma run_navigations:
  "run dec evs s = Some s' \<Longrightarrow>
   length (navigations s') = length (navigations s) + null_renewals dec evs s"
proof (induction evs arbitrary: s)
  case Nil
  then show ?case by simp
next
  case (Cons e evs)
  from Cons.prems obtain s1 where 1: "step dec e s = Some s1" and 2: "run dec evs s1 = Some s'"
    by (auto split: option.splits)
  from Cons.IH [OF 2] step_navigations [OF 1] 1 show ?case by simp
qed

subsection \<open>The concrete inputs evaluated\<close>

lemma ex_clock:
  "currentTime 1000 = 1" "currentTime 2000 = 2" "currentTime 100000 = 100"
  "currentTime 101000 = 101" "currentTime 200000 = 200" "currentTime 5000000 = 5000"
  "currentTime 6000000 = 6000"
  using currentTime_whole [of 1] currentTime_whole [of 2] currentTime_whole [of 100]
    currentTime_whole [of 101] currentTime_whole [of 200] currentTime_whole [of 5000]
    currentTime_whole [of 6000]
  by simp_all

lemmas ex_defs = ex_decoder_def ex_renewal_def ex_config_def ex_store_def ex_state_def
  ex_queued_def ex_three_expired_def ex_one_retry_def ex_four_def ex_replayed_def
  ex_stale_replay_def ex_two_signals_def ex_inbound_beside_waiters_def ex_clock

lemmas eval_defs = request_interceptor_def request_interceptor_resume_def
  response_interceptor_def response_interceptor_resume_def refreshToken_call_def
  refreshToken_resume_def refreshToken_try_def onTokenRefreshed_def subscriber_callback_def
  subscribeTokenRefresh_def set_phase_def set_authorization_def set_retry_def return_config_def
  with_authorization_def bearer_def teardown_def logout_def navigate_def set_store_def
  removeItem_def setItem_def partialize_def truthy_def js_less_def phase_of_def config_of_def
  auth_header_of_def guard_outcome_def renewal_state_def session_signals_def
  stored_credentials_def refreshed_def settles_null_def

lemma ex_initial: "initial (ex_state ls)"
  by (simp add: initial_def ex_state_def)

lemma ex_renewing_run:
  "run ex_decoder ex_three_expired (ex_state (ex_store ''expired'')) = Some ex_renewing"
  by (simp add: ex_renewing_def ex_defs eval_defs)

lemma ex_renewing_view:
  "renewal_state ex_renewing = (True, [1, 2])"
  "guard_outcome 0 ex_renewing = (Some (OutRefreshing (Some ''R1'')), None, [''R1''], True, [])"
  "navigations ex_renewing = []"
  by (simp_all add: ex_renewing_def ex_defs eval_defs)

lemma ex_retried_run:
  "run ex_decoder ex_one_retry (ex_state (ex_store ''fresh'')) = Some ex_retried"
  by (simp add: ex_retried_def ex_defs eval_defs)

lemma ex_retried_view:
  "replays ex_retried = [0]"
  "guard_outcome 0 ex_retried = (Some Sent, Some ''Bearer T2'', [''R1''], False, [0, 0])"
  by (simp_all add: ex_retried_def ex_defs eval_defs)



lemma ex_replay_renewing_view:
  "requests ex_replay_renewing 0 =
     Some \<lparr>cfg = (with_authorization ''expired'' ex_config)\<lparr>retry_flag := True\<rparr>,
           phase = OutRefreshing (Some ''R1'')\<rparr>"
  "guard_outcome 0 ex_replay_renewing =
     (Some (OutRefreshing (Some ''R1'')), Some ''Bearer expired'', [''R1'', ''R1''], True, [0])"
  "navigations ex_replay_renewing = []"
  by (simp_all add: ex_replay_renewing_def ex_defs eval_defs)

lemma ex_inbound_beside_waiters_view:
  "map_option renewal_state
     (run ex_decoder ex_inbound_beside_waiters (ex_state (ex_store ''fresh''))) = Some (True, [2])"
  "map_option posts
     (run ex_decoder ex_inbound_beside_waiters (ex_state (ex_store ''fresh''))) =
   Some [''R1'', ''R1'']"
  by (simp_all add: ex_defs eval_defs)

section \<open>The claims\<close>

text \<open>
  \<^bold>\<open>C1\<close> (single-flight renewal). The claim: for every set of requests that need a
  renewal at the same time, whether the request interceptor found the access token
  expired or the response interceptor met a 401, one call goes to the renewal endpoint
  per cycle. The response interceptor calls \<^verbatim>\<open>refreshToken()\<close> at line 101 without
  reading \<open>isRefreshing\<close>: two requests that are both answered with 401 before either
  renewal settles post the same refresh token twice.
\<close>

theorem two_rejections_two_renewals:
  "map_option posts
     (run ex_decoder
        [Issue 0 ex_config, Enter 0 1000, Issue 1 ex_config, Enter 1 1000,
         Respond 0 (Failure (Some 401)), Respond 1 (Failure (Some 401))]
        (ex_state (ex_store ''fresh''))) = Some [''R1'', ''R1'']"
  by (simp add: ex_defs eval_defs)

text \<open>
  \<^bold>\<open>C2\<close> (at most one retry). From the page as loaded, whatever happens: no request is
  replayed by the response interceptor more than once; a request that has been replayed
  carries \<^verbatim>\<open>_retry\<close>; and when a request that carries \<^verbatim>\<open>_retry\<close> is answered with an
  error (a 401 or any other), the error is handed to the caller and nothing else
  changes: no call to the renewal endpoint, no replay, no redirect.
\<close>

theorem at_most_one_retry:
  assumes "initial s0" and "run dec evs s0 = Some s"
  shows "count_list (replays s) i \<le> 1 \<and>
         (i \<in> set (replays s) \<longrightarrow> retried s i) \<and>
         (retried s i \<longrightarrow>
            (\<forall>st s'. step dec (Respond i (Failure st)) s = Some s' \<longrightarrow>
               s' = set_phase i (Done (Rejected st)) s \<and>
               phase_of s' i = Some (Done (Rejected st)) \<and>
               posts s' = posts s \<and> replays s' = replays s \<and> navigations s' = navigations s))"
proof -
  from assms have "consistent s"
    by (auto intro: run_consistent initial_consistent)
  then have inv: "retry_inv s" by (simp add: consistent_def)
  have "s' = set_phase i (Done (Rejected st)) s \<and> phase_of s' i = Some (Done (Rejected st)) \<and>
      posts s' = posts s \<and> replays s' = replays s \<and> navigations s' = navigations s"
    if flag: "retried s i" and st: "step dec (Respond i (Failure st)) s = Some s'" for st s'
  proof -
    from flag obtain c where c: "config_of s i = Some c" and "retry_flag c"
      by (auto simp: retried_def split: option.splits)
    moreover from st have "phase_of s i = Some Sent" "s' = response_interceptor i (Failure st) s"
      by (auto split: option.splits phase.splits)
    ultimately show ?thesis
      by (simp add: response_interceptor_eq [OF c] phase_of_set_phase)
  qed
  then have surfaced: "retried s i \<longrightarrow>
      (\<forall>st s'. step dec (Respond i (Failure st)) s = Some s' \<longrightarrow>
         s' = set_phase i (Done (Rejected st)) s \<and>
         phase_of s' i = Some (Done (Rejected st)) \<and>
         posts s' = posts s \<and> replays s' = replays s \<and> navigations s' = navigations s)"
    by blast
  from inv have "count_list (replays s) i \<le> 1" and "i \<in> set (replays s) \<longrightarrow> retried s i"
    unfolding retry_inv_def by blast+
  with surfaced show ?thesis by (intro conjI)
qed

theorem at_most_one_retry_witness:
  "initial (ex_state (ex_store ''fresh'')) \<and>
   run ex_decoder ex_one_retry (ex_state (ex_store ''fresh'')) = Some ex_retried \<and>
   count_list (replays ex_retried) 0 \<le> 1 \<and> 0 \<in> set (replays ex_retried) \<and>
   retried ex_retried 0 \<and>
   step ex_decoder (Respond 0 (Failure (Some 401))) ex_retried =
     Some (set_phase 0 (Done (Rejected (Some 401))) ex_retried) \<and>
   posts (set_phase 0 (Done (Rejected (Some 401))) ex_retried) = [''R1'']"
proof -
  note T = at_most_one_retry [OF ex_initial ex_retried_run, of 0]
  from T have once: "count_list (replays ex_retried) 0 \<le> 1"
    by (rule conjunct1)
  have mem: "0 \<in> set (replays ex_retried)"
    by (simp add: ex_retried_view)
  from T have "0 \<in> set (replays ex_retried) \<longrightarrow> retried ex_retried 0"
    by (rule conjunct1 [OF conjunct2])
  with mem have flag: "retried ex_retried 0" by (rule rev_mp)
  have "phase_of ex_retried 0 = Some Sent"
    using ex_retried_view(2) by (simp add: guard_outcome_def)
  then obtain s' where st: "step ex_decoder (Respond 0 (Failure (Some 401))) ex_retried = Some s'"
    by simp
  from T have "retried ex_retried 0 \<longrightarrow>
      (\<forall>st s'. step ex_decoder (Respond 0 (Failure st)) ex_retried = Some s' \<longrightarrow>
         s' = set_phase 0 (Done (Rejected st)) ex_retried \<and>
         phase_of s' 0 = Some (Done (Rejected st)) \<and>
         posts s' = posts ex_retried \<and> replays s' = replays ex_retried \<and>
         navigations s' = navigations ex_retried)"
    by (rule conjunct2 [OF conjunct2])
  with flag st have s': "s' = set_phase 0 (Done (Rejected (Some 401))) ex_retried"
    and same: "posts s' = posts ex_retried"
    by blast+
  have "posts ex_retried = [''R1'']"
    using ex_retried_view(2) by (simp add: guard_outcome_def)
  with same s' have "posts (set_phase 0 (Done (Rejected (Some 401))) ex_retried) = [''R1'']"
    by simp
  with once mem flag st s' ex_initial ex_retried_run show ?thesis
    by (intro conjI) simp_all
qed




text \<open>
  \<^bold>\<open>C4\<close> (decode error). As claimed, a malformed access token sends the request through
  the renewal path. The code catches the decode error at line 82, logs it and returns
  the configuration: the request goes out, and no renewal is started.
\<close>

theorem malformed_token_skips_renewal:
  "map_option (guard_outcome 0)
     (run ex_decoder [Issue 0 ex_config, Enter 0 1000] (ex_state (ex_store ''garbage''))) =
   Some (Some Sent, None, [], False, [0])"
  by (simp add: ex_defs eval_defs)

text \<open>
  \<^bold>\<open>C4\<close>, amended. When \<^verbatim>\<open>jwtDecode\<close> throws on the stored access token, the request
  interceptor logs the error and dispatches the request with its configuration exactly
  as it entered the interceptor; no renewal is started, and nothing else in the state
  changes. The interceptor attaches nothing on this path: a request that enters without
  an \<^verbatim>\<open>Authorization\<close> header leaves without one, and a request replayed by the response
  interceptor, whose configuration carries the header set at line 103, leaves with that
  header as it is.
\<close>

theorem decode_error_passes_through:
  assumes "localStorage s ''access_token'' = Some token" and "token \<noteq> []"
    and "dec token = DecodeError"
    and "requests s i = Some r" and "phase r = Queued"
  shows "step dec (Enter i now) s =
           Some (s\<lparr>requests := (requests s)(i \<mapsto> r\<lparr>phase := Sent\<rparr>),
                   transmitted := transmitted s @ [(i, cfg r)],
                   console_errors := Suc (console_errors s)\<rparr>)"
  using assms by (simp add: phase_of_def request_interceptor_def truthy_def return_config_def)

theorem decode_error_passes_through_witness:
  "localStorage (ex_queued (ex_store ''garbage'')) ''access_token'' = Some ''garbage'' \<and>
   ex_decoder ''garbage'' = DecodeError \<and>
   requests (ex_queued (ex_store ''garbage'')) 0 = Some \<lparr>cfg = ex_config, phase = Queued\<rparr> \<and>
   step ex_decoder (Enter 0 1000) (ex_queued (ex_store ''garbage'')) =
     Some ((ex_queued (ex_store ''garbage''))
             \<lparr>requests := [0 \<mapsto> \<lparr>cfg = ex_config, phase = Sent\<rparr>],
              transmitted := [(0, ex_config)], console_errors := 1\<rparr>) \<and>
   map_option (guard_outcome 0) (step ex_decoder (Enter 0 1000) (ex_queued (ex_store ''garbage''))) =
     Some (Some Sent, None, [], False, [0]) \<and>
   map_option (guard_outcome 0)
     (step ex_decoder (Enter 0 1000) (ex_replayed ''garbage'' (ex_store ''garbage''))) =
     Some (Some Sent, Some ''Bearer garbage'', [], False, [0])"
proof -
  have 1: "localStorage (ex_queued (ex_store ''garbage'')) ''access_token'' = Some ''garbage''"
    by (simp add: ex_queued_def ex_state_def ex_store_def)
  have 2: "ex_decoder ''garbage'' = DecodeError" by (simp add: ex_decoder_def)
  have 3: "requests (ex_queued (ex_store ''garbage'')) 0 = Some \<lparr>cfg = ex_config, phase = Queued\<rparr>"
    by (simp add: ex_queued_def)
  have 4: "localStorage (ex_replayed ''garbage'' (ex_store ''garbage'')) ''access_token'' = Some ''garbage''"
    by (simp add: ex_replayed_def ex_state_def ex_store_def)
  have 5: "requests (ex_replayed ''garbage'' (ex_store ''garbage'')) 0 =
      Some \<lparr>cfg = (with_authorization ''garbage'' ex_config)\<lparr>retry_flag := True\<rparr>, phase = Queued\<rparr>"
    by (simp add: ex_replayed_def)
  note first = decode_error_passes_through [where dec = ex_decoder and now = 1000, OF 1 _ 2 3]
  note replay = decode_error_passes_through [where dec = ex_decoder and now = 1000, OF 4 _ 2 5]
  from first replay 1 2 3 show ?thesis
    by (simp add: ex_queued_def ex_replayed_def ex_state_def ex_config_def guard_outcome_def
        auth_header_of_def phase_of_def config_of_def with_authorization_def bearer_def)
qed

text \<open>
  \<^bold>\<open>C5\<close> (teardown on renewal failure). As claimed, the session-end signal fires exactly
  once when a renewal fails. Nothing in client.ts remembers that the signal has fired:
  each of lines 67-68 and 107-108 logs out and redirects whenever its
  \<^verbatim>\<open>refreshToken()\<close> resolves with \<^verbatim>\<open>null\<close>. One request and one failed exchange give
  two redirects: the request interceptor tears the session down and dispatches the
  request all the same; the server answers 401; the response interceptor calls
  \<^verbatim>\<open>refreshToken()\<close>, which finds no refresh token, posts nothing and returns \<^verbatim>\<open>null\<close>;
  the response interceptor tears the session down again.
\<close>

theorem one_failed_exchange_two_signals:
  "map_option session_signals
     (run ex_decoder ex_two_signals (ex_state (ex_store ''expired''))) =
   Some ([''/login'', ''/login''], [''R1''])"
  by (simp add: ex_defs eval_defs)

text \<open>
  \<^bold>\<open>C5\<close>, amended. From the page as loaded, whatever happened before:
  \<^item> the number of redirects to \<^verbatim>\<open>/login\<close> is the number of awaited renewals that have
    resolved with \<^verbatim>\<open>null\<close> (or another falsy token);
  \<^item> a renewal whose exchange fails, with a network error or an error status, resolves
    so;
  \<^item> when a renewal resolves so, the continuation removes both stored credentials,
    resets the auth store, and assigns \<^verbatim>\<open>/login\<close> to the location once, however many
    requests are subscribed; the subscribers are neither called nor removed, every
    other request keeps its phase, and after such a renewal of the request interceptor
    no request is left renewing there.
\<close>

theorem teardown_on_renewal_failure:
  assumes "initial s0" and "run dec evs s0 = Some s"
  shows "length (navigations s) = null_renewals dec evs s0 \<and>
         (\<forall>i res n s'. step dec (RefreshSettles i res) s = Some s' \<and>
              (res = PostNetworkError \<or> res = PostHttpError n) \<longrightarrow>
              settles_null (RefreshSettles i res) s) \<and>
         (\<forall>i res s'. step dec (RefreshSettles i res) s = Some s' \<and>
              settles_null (RefreshSettles i res) s \<longrightarrow>
              localStorage s' ''access_token'' = None \<and> localStorage s' ''refresh_token'' = None \<and>
              user (auth s') = None \<and> tokens (auth s') = None \<and>
              isAuthenticated (auth s') = False \<and>
              navigations s' = navigations s @ [''/login''] \<and>
              refreshSubscribers s' = refreshSubscribers s \<and> notified s' = notified s \<and>
              (\<forall>j. j \<noteq> i \<longrightarrow> phase_of s' j = phase_of s j) \<and>
              (out_refresh s i \<longrightarrow> (\<forall>j. \<not> out_refresh s' j)))"
proof -
  from assms(1,2) have "consistent s"
    by (auto intro: run_consistent initial_consistent)
  then have sf: "single_flight s" by (simp add: consistent_def)
  from assms have count: "length (navigations s) = null_renewals dec evs s0"
    using run_navigations [of dec evs s0 s] by (simp add: initial_def)
  have failed: "settles_null (RefreshSettles i res) s"
    if "step dec (RefreshSettles i res) s = Some s'"
      and "res = PostNetworkError \<or> res = PostHttpError n" for i res n s'
    using that
    by (auto simp: settles_null_def refreshed_def truthy_def split: option.splits phase.splits)
  have auth_td: "user (auth (teardown t)) = None \<and> tokens (auth (teardown t)) = None \<and>
      isAuthenticated (auth (teardown t)) = False" for t :: "'a client_state"
    by (simp add: teardown_def navigate_def logout_def set_store_def removeItem_def)
  have auth_keep [simp]: "auth (set_phase j q t) = auth t" "auth (return_config j t) = auth t"
    for j q and t :: "'a client_state"
    by (simp_all add: set_phase_def return_config_def split: option.splits)
  have torn: "localStorage s' ''access_token'' = None \<and> localStorage s' ''refresh_token'' = None \<and>
      user (auth s') = None \<and> tokens (auth s') = None \<and> isAuthenticated (auth s') = False \<and>
      navigations s' = navigations s @ [''/login''] \<and>
      refreshSubscribers s' = refreshSubscribers s \<and> notified s' = notified s \<and>
      (\<forall>j. j \<noteq> i \<longrightarrow> phase_of s' j = phase_of s j) \<and>
      (out_refresh s i \<longrightarrow> (\<forall>j. \<not> out_refresh s' j))"
    if st: "step dec (RefreshSettles i res) s = Some s'"
      and null: "settles_null (RefreshSettles i res) s" for i res s'
  proof (cases "phase_of s i")
    case None
    with st show ?thesis by simp
  next
    case (Some ph)
    show ?thesis
    proof (cases ph)
      case (OutRefreshing p)
      with Some null have falsy: "\<not> truthy (refreshed p res)"
        by (simp add: settles_null_def)
      from Some OutRefreshing st have s': "s' = request_interceptor_resume i p res s" by simp
      from Some OutRefreshing have "out_refresh s i" by (simp add: out_refresh_def)
      with sf have only: "\<And>j. out_refresh s j \<Longrightarrow> j = i"
        by (auto simp: single_flight_def)
      show ?thesis
      proof (cases "refreshed p res")
        case None
        then have s'': "s' = return_config i (teardown (s\<lparr>isRefreshing := False\<rparr>))"
          by (simp add: s' request_interceptor_resume_eq)
        have "\<not> out_refresh s' j" for j
          using only [of j] by (auto simp: s'' out_refresh_return_config)
        then show ?thesis
          using auth_td [of "s\<lparr>isRefreshing := False\<rparr>"]
          by (simp add: s'' phase_of_return_config)
      next
        case (Some a)
        with falsy have "a = []" by (simp add: truthy_def)
        with Some have s'': "s' = return_config i
            (teardown ((setItem ''access_token'' [] s)\<lparr>isRefreshing := False\<rparr>))"
          by (simp add: s' request_interceptor_resume_eq)
        have "\<not> out_refresh s' j" for j
          using only [of j] by (auto simp: s'' out_refresh_return_config)
        then show ?thesis
          using auth_td [of "(setItem ''access_token'' [] s)\<lparr>isRefreshing := False\<rparr>"]
          by (simp add: s'' phase_of_return_config)
      qed
    next
      case (InRefreshing p st')
      with Some null have falsy: "\<not> truthy (refreshed p res)"
        by (simp add: settles_null_def)
      from Some InRefreshing st have s': "s' = response_interceptor_resume i p st' res s" by simp
      from Some InRefreshing have no: "\<not> out_refresh s i" by (simp add: out_refresh_def)
      show ?thesis
      proof (cases "refreshed p res")
        case None
        then have s'': "s' = set_phase i (Done (Rejected st')) (teardown s)"
          by (simp add: s' response_interceptor_resume_eq)
        from no show ?thesis
          using auth_td [of s] by (simp add: s'' phase_of_set_phase)
      next
        case (Some a)
        with falsy have "a = []" by (simp add: truthy_def)
        with Some have s'': "s' = set_phase i (Done (Rejected st'))
            (teardown (setItem ''access_token'' [] s))"
          by (simp add: s' response_interceptor_resume_eq)
        from no show ?thesis
          using auth_td [of "setItem ''access_token'' [] s"] by (simp add: s'' phase_of_set_phase)
      qed
    qed (use Some null in \<open>auto simp: settles_null_def\<close>)
  qed
  have all_failed: "\<forall>i res n s'. step dec (RefreshSettles i res) s = Some s' \<and>
              (res = PostNetworkError \<or> res = PostHttpError n) \<longrightarrow>
              settles_null (RefreshSettles i res) s"
    using failed by (intro allI impI) (elim conjE)
  have all_torn: "\<forall>i res s'. step dec (RefreshSettles i res) s = Some s' \<and>
              settles_null (RefreshSettles i res) s \<longrightarrow>
              localStorage s' ''access_token'' = None \<and> localStorage s' ''refresh_token'' = None \<and>
              user (auth s') = None \<and> tokens (auth s') = None \<and>
              isAuthenticated (auth s') = False \<and>
              navigations s' = navigations s @ [''/login''] \<and>
              refreshSubscribers s' = refreshSubscribers s \<and> notified s' = notified s \<and>
              (\<forall>j. j \<noteq> i \<longrightarrow> phase_of s' j = phase_of s j) \<and>
              (out_refresh s i \<longrightarrow> (\<forall>j. \<not> out_refresh s' j))"
    using torn by (intro allI impI) (elim conjE)
  from count all_failed all_torn show ?thesis by (intro conjI)
qed

theorem teardown_on_renewal_failure_witness:
  "initial (ex_state (ex_store ''expired'')) \<and>
   run ex_decoder ex_three_expired (ex_state (ex_store ''expired'')) = Some ex_renewing \<and>
   refreshSubscribers ex_renewing = [1, 2] \<and> out_refresh ex_renewing 0 \<and>
   length (navigations ex_renewing) = null_renewals ex_decoder ex_three_expired (ex_state (ex_store ''expired'')) \<and>
   settles_null (RefreshSettles 0 (PostHttpError 401)) ex_renewing \<and>
   map_option navigations (step ex_decoder (RefreshSettles 0 (PostHttpError 401)) ex_renewing) =
     Some [''/login''] \<and>
   map_option refreshSubscribers (step ex_decoder (RefreshSettles 0 (PostHttpError 401)) ex_renewing) =
     Some [1, 2] \<and>
   map_option stored_credentials (step ex_decoder (RefreshSettles 0 (PostHttpError 401)) ex_renewing) =
     Some (None, None) \<and>
   null_renewals ex_decoder ex_two_signals (ex_state (ex_store ''expired'')) = 2 \<and>
   map_option navigations (run ex_decoder ex_two_signals (ex_state (ex_store ''expired''))) =
     Some [''/login'', ''/login'']"
proof -
  note T = teardown_on_renewal_failure [OF ex_initial ex_renewing_run]
  have ph: "phase_of ex_renewing 0 = Some (OutRefreshing (Some ''R1''))"
    and subs: "refreshSubscribers ex_renewing = [1, 2]" and nav: "navigations ex_renewing = []"
    using ex_renewing_view by (simp_all add: guard_outcome_def renewal_state_def)
  from ph obtain s' where st: "step ex_decoder (RefreshSettles 0 (PostHttpError 401)) ex_renewing = Some s'"
    by simp
  from T have count: "length (navigations ex_renewing) =
      null_renewals ex_decoder ex_three_expired (ex_state (ex_store ''expired''))"
    by (rule conjunct1)
  from T have "\<forall>i res n s'. step ex_decoder (RefreshSettles i res) ex_renewing = Some s' \<and>
      (res = PostNetworkError \<or> res = PostHttpError n) \<longrightarrow>
      settles_null (RefreshSettles i res) ex_renewing"
    by (rule conjunct1 [OF conjunct2])
  with st have null: "settles_null (RefreshSettles 0 (PostHttpError 401)) ex_renewing"
    by blast
  from T have torn: "\<forall>i res s'. step ex_decoder (RefreshSettles i res) ex_renewing = Some s' \<and>
      settles_null (RefreshSettles i res) ex_renewing \<longrightarrow>
      localStorage s' ''access_token'' = None \<and> localStorage s' ''refresh_token'' = None \<and>
      user (auth s') = None \<and> tokens (auth s') = None \<and>
      isAuthenticated (auth s') = False \<and>
      navigations s' = navigations ex_renewing @ [''/login''] \<and>
      refreshSubscribers s' = refreshSubscribers ex_renewing \<and> notified s' = notified ex_renewing \<and>
      (\<forall>j. j \<noteq> i \<longrightarrow> phase_of s' j = phase_of ex_renewing j) \<and>
      (out_refresh ex_renewing i \<longrightarrow> (\<forall>j. \<not> out_refresh s' j))"
    by (rule conjunct2 [OF conjunct2])
  from torn st null have gone: "localStorage s' ''access_token'' = None"
      "localStorage s' ''refresh_token'' = None"
    and sig: "navigations s' = navigations ex_renewing @ [''/login'']"
    and kept: "refreshSubscribers s' = refreshSubscribers ex_renewing"
    by blast+
  have run2: "run ex_decoder ex_two_signals (ex_state (ex_store ''expired'')) =
      Some (the (run ex_decoder ex_two_signals (ex_state (ex_store ''expired''))))"
    by (simp add: ex_defs eval_defs)
  have twice: "map_option navigations (run ex_decoder ex_two_signals (ex_state (ex_store ''expired''))) =
      Some [''/login'', ''/login'']"
    by (simp add: ex_defs eval_defs)
  note T2 = teardown_on_renewal_failure [where dec = ex_decoder and evs = ex_two_signals,
      OF ex_initial run2]
  from T2 have "length (navigations (the (run ex_decoder ex_two_signals (ex_state (ex_store ''expired''))))) =
      null_renewals ex_decoder ex_two_signals (ex_state (ex_store ''expired''))"
    by (rule conjunct1)
  moreover from twice run2
  have "navigations (the (run ex_decoder ex_two_signals (ex_state (ex_store ''expired'')))) =
      [''/login'', ''/login'']"
    by (metis option.sel option.simps(9))
  ultimately have two: "null_renewals ex_decoder ex_two_signals (ex_state (ex_store ''expired'')) = 2"
    by simp
  from ph have out: "out_refresh ex_renewing 0" by (simp add: out_refresh_def)
  from count null gone sig kept st subs nav out two twice ex_initial ex_renewing_run
  show ?thesis
    by (simp add: stored_credentials_def)
qed




text \<open>
  \<^bold>\<open>C7\<close> (no send on renewal failure). As claimed, a request whose renewal resolved with
  \<^verbatim>\<open>null\<close> is not transmitted. After the logout and the redirect of lines 67-68 the
  request interceptor falls through to \<^verbatim>\<open>return config\<close> at line 87: the request is
  released to the transport.
\<close>

theorem request_sent_after_failed_renewal:
  "map_option (guard_outcome 0)
     (run ex_decoder [Issue 0 ex_config, Enter 0 200000, RefreshSettles 0 PostNetworkError]
        (ex_state (ex_store ''expired''))) =
   Some (Some Sent, None, [''R1''], False, [0])"
  by (simp add: ex_defs eval_defs)

text \<open>
  \<^bold>\<open>C7\<close>, amended. When the renewal awaited by the request interceptor resolves with
  \<^verbatim>\<open>null\<close>, the interceptor resets \<open>isRefreshing\<close>, tears the session down (logout and
  redirect to \<^verbatim>\<open>/login\<close>) and then dispatches the request with its configuration
  exactly as it entered the interceptor; it raises no error. The interceptor attaches
  nothing on this path: a request that entered without an \<^verbatim>\<open>Authorization\<close> header
  leaves without one, and a request replayed by the response interceptor leaves with
  the header set at line 103.
\<close>

theorem renewal_failure_still_sends:
  assumes "requests s i = Some r" and "phase r = OutRefreshing p"
    and "fst (refreshToken_resume p res s) = Returns None"
  shows "step dec (RefreshSettles i res) s =
           Some ((teardown (s\<lparr>isRefreshing := False\<rparr>))
                   \<lparr>requests := (requests s)(i \<mapsto> r\<lparr>phase := Sent\<rparr>),
                    transmitted := transmitted s @ [(i, cfg r)]\<rparr>)"
  using assms
  by (simp add: phase_of_def request_interceptor_resume_eq refreshToken_resume_eq return_config_def)

theorem renewal_failure_still_sends_witness:
  "requests ex_renewing 0 = Some \<lparr>cfg = ex_config, phase = OutRefreshing (Some ''R1'')\<rparr> \<and>
   fst (refreshToken_resume (Some ''R1'') PostNetworkError ex_renewing) = Returns None \<and>
   map_option (guard_outcome 0) (step ex_decoder (RefreshSettles 0 PostNetworkError) ex_renewing) =
     Some (Some Sent, None, [''R1''], False, [0]) \<and>
   map_option navigations (step ex_decoder (RefreshSettles 0 PostNetworkError) ex_renewing) =
     Some [''/login''] \<and>
   requests ex_replay_renewing 0 =
     Some \<lparr>cfg = (with_authorization ''expired'' ex_config)\<lparr>retry_flag := True\<rparr>,
           phase = OutRefreshing (Some ''R1'')\<rparr> \<and>
   map_option (guard_outcome 0)
     (step ex_decoder (RefreshSettles 0 PostNetworkError) ex_replay_renewing) =
     Some (Some Sent, Some ''Bearer expired'', [''R1'', ''R1''], False, [0, 0]) \<and>
   map_option navigations (step ex_decoder (RefreshSettles 0 PostNetworkError) ex_replay_renewing) =
     Some [''/login'']"
proof -
  have 1: "requests ex_renewing 0 = Some \<lparr>cfg = ex_config, phase = OutRefreshing (Some ''R1'')\<rparr>"
    by (simp add: ex_renewing_def ex_defs eval_defs)
  have 2: "fst (refreshToken_resume (Some ''R1'') PostNetworkError s) = Returns None"
    for s :: "unit client_state"
    by (simp add: refreshToken_resume_eq refreshed_def)
  have 3: "posts ex_renewing = [''R1'']" "transmitted ex_renewing = []" "navigations ex_renewing = []"
    using ex_renewing_view by (simp_all add: guard_outcome_def)
  note 4 = ex_replay_renewing_view(1)
  have 5: "posts ex_replay_renewing = [''R1'', ''R1'']" "map fst (transmitted ex_replay_renewing) = [0]"
    "navigations ex_replay_renewing = []"
    using ex_replay_renewing_view by (simp_all add: guard_outcome_def)
  note first = renewal_failure_still_sends [where dec = ex_decoder, OF 1 _ 2]
  note replay = renewal_failure_still_sends [where dec = ex_decoder, OF 4 _ 2]
  from first replay 1 2 3 4 5 show ?thesis
    by (simp add: guard_outcome_def auth_header_of_def phase_of_def config_of_def ex_config_def
        with_authorization_def bearer_def)
qed

text \<open>
  \<^bold>\<open>C8\<close> (missing credential). With no access token in the store, the request
  interceptor releases the request with its configuration unchanged (no
  \<^verbatim>\<open>Authorization\<close> header attached, no other field touched), starts no renewal, and
  changes nothing else in the state.
\<close>

theorem missing_credential_pass_through:
  assumes "localStorage s ''access_token'' = None"
    and "requests s i = Some r" and "phase r = Queued"
  shows "step dec (Enter i now) s =
           Some (s\<lparr>requests := (requests s)(i \<mapsto> r\<lparr>phase := Sent\<rparr>),
                   transmitted := transmitted s @ [(i, cfg r)]\<rparr>)"
  using assms by (simp add: phase_of_def request_interceptor_def truthy_def return_config_def)

theorem missing_credential_pass_through_witness:
  "localStorage (ex_queued Map.empty) ''access_token'' = None \<and>
   requests (ex_queued Map.empty) 0 = Some \<lparr>cfg = ex_config, phase = Queued\<rparr> \<and>
   step ex_decoder (Enter 0 1000) (ex_queued Map.empty) =
     Some ((ex_queued Map.empty)
             \<lparr>requests := [0 \<mapsto> \<lparr>cfg = ex_config, phase = Sent\<rparr>],
              transmitted := [(0, ex_config)]\<rparr>)"
proof -
  have 1: "localStorage (ex_queued Map.empty) ''access_token'' = None"
    by (simp add: ex_queued_def ex_state_def)
  have 2: "requests (ex_queued Map.empty) 0 = Some \<lparr>cfg = ex_config, phase = Queued\<rparr>"
    by (simp add: ex_queued_def)
  from missing_credential_pass_through [OF 1 2, of ex_decoder 1000] 1 2 show ?thesis
    by (simp add: ex_queued_def ex_state_def)
qed

text \<open>
  \<^bold>\<open>C9\<close> (\<^verbatim>\<open>refreshToken\<close> is total). \<^verbatim>\<open>refreshToken\<close> never throws. Without a refresh token
  in the store it returns \<^verbatim>\<open>null\<close> and makes no call; when the renewal endpoint
  answers the posted refresh token with an access token, that token is stored under
  \<^verbatim>\<open>access_token\<close> and returned; on any other answer it returns \<^verbatim>\<open>null\<close> and the store
  is as it was.
\<close>

theorem refreshToken_total:
  "fst (refreshToken net s) \<noteq> Throws \<and>
   (\<not> truthy (localStorage s ''refresh_token'') \<longrightarrow> refreshToken net s = (Returns None, s)) \<and>
   (\<forall>r a. localStorage s ''refresh_token'' = Some r \<and> r \<noteq> [] \<and> net r = PostOk a \<longrightarrow>
      refreshToken net s =
        (Returns (Some a), setItem ''access_token'' a (s\<lparr>posts := posts s @ [r]\<rparr>))) \<and>
   (\<forall>r. localStorage s ''refresh_token'' = Some r \<and> r \<noteq> [] \<and> (\<forall>a. net r \<noteq> PostOk a) \<longrightarrow>
      refreshToken net s = (Returns None, s\<lparr>posts := posts s @ [r]\<rparr>))"
  by (auto simp: refreshToken_def refreshToken_call_def refreshToken_resume_def refreshToken_try_def
      truthy_def split: option.splits post_result.splits prod.splits)

theorem refreshToken_total_witness:
  "fst (refreshToken ex_renewal (ex_state (ex_store ''expired''))) = Returns (Some ''T2'') \<and>
   stored_credentials (snd (refreshToken ex_renewal (ex_state (ex_store ''expired'')))) =
     (Some ''T2'', Some ''R1'') \<and>
   posts (snd (refreshToken ex_renewal (ex_state (ex_store ''expired'')))) = [''R1''] \<and>
   \<not> truthy (localStorage (ex_state Map.empty) ''refresh_token'') \<and>
   refreshToken ex_renewal (ex_state Map.empty) = (Returns None, ex_state Map.empty) \<and>
   ex_renewal ''R0'' = PostHttpError 401 \<and>
   fst (refreshToken ex_renewal (ex_state [''refresh_token'' \<mapsto> ''R0''])) = Returns None \<and>
   stored_credentials (snd (refreshToken ex_renewal (ex_state [''refresh_token'' \<mapsto> ''R0'']))) =
     (None, Some ''R0'') \<and>
   posts (snd (refreshToken ex_renewal (ex_state [''refresh_token'' \<mapsto> ''R0'']))) = [''R0'']"
proof -
  have absent: "\<not> truthy (localStorage (ex_state Map.empty) ''refresh_token'')"
    by (simp add: truthy_def ex_state_def)
  have good: "localStorage (ex_state (ex_store ''expired'')) ''refresh_token'' = Some ''R1'' \<and>
      ''R1'' \<noteq> [] \<and> ex_renewal ''R1'' = PostOk ''T2''"
    by (simp add: ex_state_def ex_store_def ex_renewal_def)
  have bad: "localStorage (ex_state [''refresh_token'' \<mapsto> ''R0'']) ''refresh_token'' = Some ''R0'' \<and>
      ''R0'' \<noteq> [] \<and> (\<forall>a. ex_renewal ''R0'' \<noteq> PostOk a)"
    by (simp add: ex_state_def ex_renewal_def)
  from absent refreshToken_total [of ex_renewal "ex_state Map.empty"]
  have 1: "refreshToken ex_renewal (ex_state Map.empty) = (Returns None, ex_state Map.empty)"
    by blast
  from good refreshToken_total [of ex_renewal "ex_state (ex_store ''expired'')"]
  have 2: "refreshToken ex_renewal (ex_state (ex_store ''expired'')) =
      (Returns (Some ''T2''),
       setItem ''access_token'' ''T2''
         ((ex_state (ex_store ''expired''))\<lparr>posts := posts (ex_state (ex_store ''expired'')) @ [''R1'']\<rparr>))"
    by blast
  from bad refreshToken_total [of ex_renewal "ex_state [''refresh_token'' \<mapsto> ''R0'']"]
  have 3: "refreshToken ex_renewal (ex_state [''refresh_token'' \<mapsto> ''R0'']) =
      (Returns None,
       (ex_state [''refresh_token'' \<mapsto> ''R0''])
         \<lparr>posts := posts (ex_state [''refresh_token'' \<mapsto> ''R0'']) @ [''R0'']\<rparr>)"
    by blast
  show ?thesis
    unfolding 1 2 3 using absent
    by (simp add: stored_credentials_def setItem_def ex_state_def ex_store_def ex_renewal_def)
qed

text \<open>
  \<^bold>\<open>C10\<close> (teardown leaves no authenticated state). After \<^verbatim>\<open>logout\<close> both
  \<^verbatim>\<open>access_token\<close> and \<^verbatim>\<open>refresh_token\<close> are absent from \<open>localStorage\<close>, the auth store
  has no user and no tokens and is not authenticated, and the persisted snapshot says
  the same.
\<close>

theorem logout_clears_session:
  "localStorage (logout s) ''access_token'' = None \<and>
   localStorage (logout s) ''refresh_token'' = None \<and>
   user (auth (logout s)) = None \<and> tokens (auth (logout s)) = None \<and>
   isAuthenticated (auth (logout s)) = False \<and>
   auth_storage (logout s) = Some (None, False)"
  by (simp add: logout_def set_store_def removeItem_def partialize_def)

end
